theory Spec2Isabelle
  imports
    Main
    "HOL-Library.Word"
    "HOL-Library.Sublist"
    "HOL-Library.Multiset"
    "HOL-Library.Char_ord"
    "HOL-Library.List_Lexorder"
begin

section \<open>The link store of JetEngine (internal/storage/badger.go)\<close>

text \<open>
  The store keeps one JSON value per (user, URL) pair in an ordered key-value engine.
  The functions of \<^verbatim>\<open>badger.go\<close> are embedded with their names; the engine
  (BadgerDB) and the Go standard library are modelled by what their documentation
  promises, as far as the program uses them.
\<close>

subsection \<open>Basic types\<close>

type_synonym bytes = string
type_synonym int64 = "64 word"

text \<open>
  A \<^verbatim>\<open>time.Time\<close> is read as the instant it denotes, in nanoseconds since the zero
  instant (January 1, year 1, 00:00:00 UTC), together with the offset of its location at
  that instant, in seconds east of UTC. \<^verbatim>\<open>IsZero\<close> and \<^verbatim>\<open>After\<close> only look at the
  instant. The monotonic clock reading and the identity of the location (its name) are
  left out.
\<close>

record time =
  instant :: int
  offset :: int

definition IsZero :: "time \<Rightarrow> bool" where
  "IsZero t = (instant t = 0)"

definition After :: "time \<Rightarrow> time \<Rightarrow> bool" where
  "After t u = (instant u < instant t)"

text \<open>The struct \<^verbatim>\<open>domain.Link\<close>. The slice \<^verbatim>\<open>Tags\<close> is \<open>None\<close> when it is nil.\<close>

record Link =
  URL :: string
  Title :: string
  Description :: string
  UserID :: int64
  Timestamp :: time
  Tags :: "string list option"
  Read :: bool
  PreviewImageURL :: string

subsection \<open>Keys\<close>

text \<open>The verb \<^verbatim>\<open>%d\<close> of \<^verbatim>\<open>fmt.Sprintf\<close> on a signed integer: decimal digits, with a
  leading minus sign for a negative number.\<close>

definition digit_char :: "nat \<Rightarrow> char" where
  "digit_char d = char_of (48 + d)"

fun digits :: "nat \<Rightarrow> string" where
  "digits n = (if n < 10 then [digit_char n] else digits (n div 10) @ [digit_char (n mod 10)])"

declare digits.simps [simp del]

definition fmt_d :: "int \<Rightarrow> string" where
  "fmt_d i = (if i < 0 then CHR ''-'' # digits (nat (- i)) else digits (nat i))"

text \<open>The number a string of decimal digits denotes, and what a decimal digit is.\<close>

definition dec_val :: "string \<Rightarrow> nat" where
  "dec_val s = foldl (\<lambda>a c. 10 * a + (of_char c - 48)) 0 s"

definition is_digit :: "char \<Rightarrow> bool" where
  "is_digit c = (48 \<le> (of_char c :: nat) \<and> (of_char c :: nat) \<le> 57)"

text \<open>\<^verbatim>\<open>fmt.Sprintf("user:%d:link:%s", userID, linkURL)\<close>\<close>

definition generateLinkKey :: "int64 \<Rightarrow> string \<Rightarrow> bytes" where
  "generateLinkKey userID linkURL = ''user:'' @ fmt_d (sint userID) @ '':link:'' @ linkURL"

text \<open>\<^verbatim>\<open>fmt.Sprintf("user:%d:link:", userID)\<close>\<close>

definition generateUserPrefix :: "int64 \<Rightarrow> bytes" where
  "generateUserPrefix userID = ''user:'' @ fmt_d (sint userID) @ '':link:''"

subsection \<open>Errors and contexts\<close>

text \<open>
  The errors the store can return. \<open>Wrapped m e\<close> is \<^verbatim>\<open>fmt.Errorf(m + ": %w", e)\<close>;
  \<open>ErrDBClosed\<close>, \<open>ErrEmptyKey\<close> and \<open>ErrInvalidKey\<close> are the errors of these names of
  package badger, \<open>ErrKeyTooLarge\<close> and \<open>ErrValueTooLarge\<close> the errors it makes for a
  key and for a value beyond its size limits; \<open>MarshalerError\<close> and \<open>UnmarshalError\<close> stand
  for a non-nil error of \<^verbatim>\<open>json.Marshal\<close> and of \<^verbatim>\<open>json.Unmarshal\<close>.
\<close>

datatype error =
    ErrDBClosed
  | ErrEmptyKey
  | ErrInvalidKey
  | ErrKeyTooLarge
  | ErrValueTooLarge
  | MarshalerError
  | UnmarshalError
  | Wrapped string error

text \<open>A \<^verbatim>\<open>context.Context\<close> is read through \<^verbatim>\<open>ctx.Err()\<close>: \<open>None\<close> while it is live.\<close>

datatype ctx_err = Canceled | DeadlineExceeded

type_synonym Context = "ctx_err option"

subsection \<open>The value codec: encoding/json on domain.Link\<close>

text \<open>
  The byte syntax of JSON is not modelled: a stored value is the JSON document it
  spells (\<open>JSONText\<close>), or bytes that are not JSON at all (\<open>NotJSON\<close>). A string token
  carries its content, a number token an integer literal. A string token whose content
  is the RFC 3339 text of a time is \<open>JTime w z\<close>, by what the text spells: the wall clock
  reading \<open>w\<close> of its date and time of day (in nanoseconds since January 1, year 1,
  00:00:00 on that clock) and the zone \<open>z\<close> in minutes east of UTC (\<^verbatim>\<open>Z\<close> is zone 0).
\<close>

datatype json =
    JNull
  | JBool bool
  | JNumber int
  | JString string
  | JTime int int
  | JArray "json list"
  | JObject "(string \<times> json) list"

datatype stored = JSONText json | NotJSON bytes

text \<open>
  \<^verbatim>\<open>Time.MarshalJSON\<close> writes the wall clock of the value's own location and the offset
  of that location cut to whole minutes (\<^verbatim>\<open>offset / 60\<close>, rounding towards zero). It
  fails when the year on that wall clock is outside 0..9999 (year 0 begins 366 days
  before the zero instant, year 10000 begins 3652059 days after it) and when the hours of
  the zone are 24 or more.
\<close>

definition wall_clock :: "time \<Rightarrow> int" where
  "wall_clock t = instant t + offset t * 1000000000"

definition zone_minutes :: "time \<Rightarrow> int" where
  "zone_minutes t = (if offset t < 0 then - ((- offset t) div 60) else offset t div 60)"

definition year_in_range :: "int \<Rightarrow> bool" where
  "year_in_range w = (- 366 * 86400 * 1000000000 \<le> w \<and> w < 3652059 * 86400 * 1000000000)"

definition zone_in_range :: "int \<Rightarrow> bool" where
  "zone_in_range z = (\<bar>z\<bar> < 24 * 60)"

definition MarshalJSON_accepts :: "time \<Rightarrow> bool" where
  "MarshalJSON_accepts t = (year_in_range (wall_clock t) \<and> zone_in_range (zone_minutes t))"

definition Time_MarshalJSON :: "time \<Rightarrow> error + json" where
  "Time_MarshalJSON t =
     (if MarshalJSON_accepts t then Inr (JTime (wall_clock t) (zone_minutes t))
      else Inl MarshalerError)"

text \<open>
  \<^verbatim>\<open>Time.UnmarshalJSON\<close> reads the text back: the instant is the wall clock reading less
  the zone, the offset is the zone. A token outside the ranges above spells no RFC 3339
  text.
\<close>

definition Time_UnmarshalJSON :: "json \<Rightarrow> time \<Rightarrow> time option" where
  "Time_UnmarshalJSON j cur =
     (case j of
        JTime w z \<Rightarrow>
          if year_in_range w \<and> zone_in_range z
          then Some \<lparr>instant = w - z * 60 * 1000000000, offset = z * 60\<rparr>
          else None
      | JNull \<Rightarrow> Some cur
      | _ \<Rightarrow> None)"

text \<open>The time that comes back when a time is written and read: \<^verbatim>\<open>Time.UnmarshalJSON\<close>
  after \<^verbatim>\<open>Time.MarshalJSON\<close>.\<close>

definition reread :: "time \<Rightarrow> time" where
  "reread t = \<lparr>instant = wall_clock t - zone_minutes t * 60 * 1000000000,
                offset = zone_minutes t * 60\<rparr>"

text \<open>
  \<^verbatim>\<open>json.Marshal\<close> writes a Go string coerced to valid UTF-8: every byte that does not
  start a well-formed encoding (\<^verbatim>\<open>utf8.DecodeRuneInString\<close> gives \<^verbatim>\<open>RuneError\<close> with
  size 1) becomes U+FFFD. \<open>rune_size\<close> is the width of the encoding at the head of the
  string, 0 when there is none.
\<close>

definition cont_byte :: "char \<Rightarrow> bool" where
  "cont_byte c = (128 \<le> (of_char c :: nat) \<and> (of_char c :: nat) \<le> 191)"

definition second_byte :: "nat \<Rightarrow> char \<Rightarrow> bool" where
  "second_byte b c =
     ((if b = 224 then 160 else if b = 240 then 144 else 128) \<le> (of_char c :: nat) \<and>
      (of_char c :: nat) \<le> (if b = 237 then 159 else if b = 244 then 143 else 191))"

definition rune_size :: "string \<Rightarrow> nat" where
  "rune_size s =
     (case s of
        [] \<Rightarrow> 0
      | c # cs \<Rightarrow>
          (let b = (of_char c :: nat) in
           if b < 128 then 1
           else if 194 \<le> b \<and> b \<le> 223 then
             (case cs of c1 # _ \<Rightarrow> if second_byte b c1 then 2 else 0 | _ \<Rightarrow> 0)
           else if 224 \<le> b \<and> b \<le> 239 then
             (case cs of c1 # c2 # _ \<Rightarrow>
                if second_byte b c1 \<and> cont_byte c2 then 3 else 0 | _ \<Rightarrow> 0)
           else if 240 \<le> b \<and> b \<le> 244 then
             (case cs of c1 # c2 # c3 # _ \<Rightarrow>
                if second_byte b c1 \<and> cont_byte c2 \<and> cont_byte c3 then 4 else 0 | _ \<Rightarrow> 0)
           else 0))"

definition replacement_char :: string where
  "replacement_char = [CHR 0xEF, CHR 0xBF, CHR 0xBD]"

function coerce_utf8 :: "string \<Rightarrow> string" where
  "coerce_utf8 [] = []"
| "coerce_utf8 (c # cs) =
     (if rune_size (c # cs) = 0 then replacement_char @ coerce_utf8 cs
      else take (rune_size (c # cs)) (c # cs) @ coerce_utf8 (drop (rune_size (c # cs)) (c # cs)))"
  by pat_completeness auto
termination
  by (relation "measure length") auto

declare coerce_utf8.simps(2) [simp del]

text \<open>\<^verbatim>\<open>utf8.ValidString\<close>\<close>

function ValidString :: "string \<Rightarrow> bool" where
  "ValidString [] = True"
| "ValidString (c # cs) =
     (if rune_size (c # cs) = 0 then False
      else ValidString (drop (rune_size (c # cs)) (c # cs)))"
  by pat_completeness auto
termination
  by (relation "measure length") auto

declare ValidString.simps(2) [simp del]

text \<open>
  \<^verbatim>\<open>json.Marshal(link)\<close>: the members in the order of the struct's fields, under the names
  of the \<^verbatim>\<open>json\<close> tags; \<^verbatim>\<open>tags\<close> and \<^verbatim>\<open>preview_image_url\<close> carry \<^verbatim>\<open>omitempty\<close>, which
  leaves out a nil and an empty slice alike.
\<close>

definition json_Marshal :: "Link \<Rightarrow> error + stored" where
  "json_Marshal link =
     (case Time_MarshalJSON (Timestamp link) of
        Inl err \<Rightarrow> Inl err
      | Inr ts \<Rightarrow> Inr (JSONText (JObject (
          [(''url'', JString (coerce_utf8 (URL link))),
           (''title'', JString (coerce_utf8 (Title link))),
           (''description'', JString (coerce_utf8 (Description link))),
           (''user_id'', JNumber (sint (UserID link))),
           (''timestamp'', ts)]
          @ (case Tags link of
               None \<Rightarrow> []
             | Some [] \<Rightarrow> []
             | Some ts \<Rightarrow> [(''tags'', JArray (map (\<lambda>s. JString (coerce_utf8 s)) ts))])
          @ [(''read'', JBool (Read link))]
          @ (if PreviewImageURL link = [] then []
             else [(''preview_image_url'', JString (coerce_utf8 (PreviewImageURL link)))])))))"

text \<open>
  \<^verbatim>\<open>json.Unmarshal(valCopy, &link)\<close> into a zero \<^verbatim>\<open>Link\<close>. A \<^verbatim>\<open>null\<close> leaves a
  field as it is (a slice becomes nil), a token of the wrong kind is an error, a member
  the struct does not have is skipped. The model is exact on the documents in which no
  member name occurs twice, every name is spelled as in the tags, the timestamp is a
  \<open>JTime\<close> token or \<^verbatim>\<open>null\<close> and no other member is a \<open>JTime\<close> token; these include all
  that \<^verbatim>\<open>json.Marshal\<close> writes for a \<^verbatim>\<open>Link\<close>. Outside them it is an approximation:
  Go also accepts a name that differs in letter case, decodes a repeated array into the
  slice that is there, and takes RFC 3339 text for any string.
\<close>

definition zero_Link :: Link where
  "zero_Link = \<lparr>URL = [], Title = [], Description = [], UserID = 0,
                 Timestamp = \<lparr>instant = 0, offset = 0\<rparr>,
                 Tags = None, Read = False, PreviewImageURL = []\<rparr>"

fun decode_string :: "json \<Rightarrow> string \<Rightarrow> string option" where
  "decode_string (JString s) cur = Some s"
| "decode_string JNull cur = Some cur"
| "decode_string _ cur = None"

fun decode_strings :: "json list \<Rightarrow> string list option" where
  "decode_strings [] = Some []"
| "decode_strings (j # js) =
     (case decode_string j [] of
        None \<Rightarrow> None
      | Some s \<Rightarrow> (case decode_strings js of None \<Rightarrow> None | Some ss \<Rightarrow> Some (s # ss)))"

definition set_field :: "string \<Rightarrow> json \<Rightarrow> Link \<Rightarrow> Link option" where
  "set_field k v l =
     (if k = ''url'' then map_option (\<lambda>s. l\<lparr>URL := s\<rparr>) (decode_string v (URL l))
      else if k = ''title'' then map_option (\<lambda>s. l\<lparr>Title := s\<rparr>) (decode_string v (Title l))
      else if k = ''description'' then
        map_option (\<lambda>s. l\<lparr>Description := s\<rparr>) (decode_string v (Description l))
      else if k = ''user_id'' then
        (case v of
           JNumber n \<Rightarrow>
             if - (2 ^ 63) \<le> n \<and> n < 2 ^ 63 then Some (l\<lparr>UserID := word_of_int n\<rparr>) else None
         | JNull \<Rightarrow> Some l
         | _ \<Rightarrow> None)
      else if k = ''timestamp'' then
        map_option (\<lambda>t. l\<lparr>Timestamp := t\<rparr>) (Time_UnmarshalJSON v (Timestamp l))
      else if k = ''tags'' then
        (case v of
           JArray js \<Rightarrow> map_option (\<lambda>ss. l\<lparr>Tags := Some ss\<rparr>) (decode_strings js)
         | JNull \<Rightarrow> Some (l\<lparr>Tags := None\<rparr>)
         | _ \<Rightarrow> None)
      else if k = ''read'' then
        (case v of JBool b \<Rightarrow> Some (l\<lparr>Read := b\<rparr>) | JNull \<Rightarrow> Some l | _ \<Rightarrow> None)
      else if k = ''preview_image_url'' then
        map_option (\<lambda>s. l\<lparr>PreviewImageURL := s\<rparr>) (decode_string v (PreviewImageURL l))
      else Some l)"

fun set_fields :: "(string \<times> json) list \<Rightarrow> Link \<Rightarrow> Link option" where
  "set_fields [] l = Some l"
| "set_fields ((k, v) # ms) l =
     (case set_field k v l of None \<Rightarrow> None | Some l' \<Rightarrow> set_fields ms l')"

definition json_Unmarshal :: "stored \<Rightarrow> error + Link" where
  "json_Unmarshal val =
     (case val of
        NotJSON _ \<Rightarrow> Inl UnmarshalError
      | JSONText JNull \<Rightarrow> Inr zero_Link
      | JSONText (JObject ms) \<Rightarrow>
          (case set_fields ms zero_Link of None \<Rightarrow> Inl UnmarshalError | Some l \<Rightarrow> Inr l)
      | JSONText _ \<Rightarrow> Inl UnmarshalError)"

subsection \<open>What is taken from the libraries without fixing it here\<close>

text \<open>
  \<^verbatim>\<open>sort.Slice\<close> (on the less function of two elements), and the number of bytes that
  \<^verbatim>\<open>json.Marshal\<close> writes for a document, which the engine holds against its limit on
  the size of a value.
\<close>

record stdlib =
  sort_Slice :: "(Link \<Rightarrow> Link \<Rightarrow> bool) \<Rightarrow> Link list \<Rightarrow> Link list"
  marshal_len :: "json \<Rightarrow> int"

definition stored_len :: "stdlib \<Rightarrow> stored \<Rightarrow> int" where
  "stored_len L val = (case val of JSONText j \<Rightarrow> marshal_len L j | NotJSON b \<Rightarrow> int (length b))"

subsection \<open>The engine: BadgerDB as the program uses it\<close>

text \<open>
  The engine holds its entries in the byte order of their keys, one entry per key, and
  knows whether it has been closed. \<^verbatim>\<open>db.Update\<close> and \<^verbatim>\<open>db.View\<close> return
  \<^verbatim>\<open>ErrDBClosed\<close> on a closed engine and run the transaction otherwise; an error of the
  transaction is returned and nothing is committed. \<^verbatim>\<open>txn.SetEntry\<close> and
  \<^verbatim>\<open>txn.Delete\<close> refuse an empty key, a key in the engine's own name space, a key of more
  than 65000 bytes and a value beyond \<^verbatim>\<open>ValueLogFileSize\<close> (1073741823 bytes by
  default, as \<^verbatim>\<open>NewBadgerRepository\<close> opens the engine). Failures of the disk are not
  modelled; a transaction of one entry within these limits is never too big, and without
  concurrent writers there is no conflict.
\<close>

type_synonym entries = "(bytes \<times> stored) list"

record DB =
  isClosed :: bool
  entries :: entries

definition txn_modify :: "bytes \<Rightarrow> int \<Rightarrow> error option" where
  "txn_modify k val_len =
     (if k = [] then Some ErrEmptyKey
      else if prefix ''!badger!'' k then Some ErrInvalidKey
      else if 65000 < int (length k) then Some ErrKeyTooLarge
      else if 1073741823 < val_len then Some ErrValueTooLarge
      else None)"

fun put_entry :: "bytes \<Rightarrow> stored \<Rightarrow> entries \<Rightarrow> entries" where
  "put_entry k v [] = [(k, v)]"
| "put_entry k v ((k', v') # es) =
     (if k < k' then (k, v) # (k', v') # es
      else if k = k' then (k, v) # es
      else (k', v') # put_entry k v es)"

definition drop_entry :: "bytes \<Rightarrow> entries \<Rightarrow> entries" where
  "drop_entry k es = filter (\<lambda>e. fst e \<noteq> k) es"

definition txn_SetEntry :: "stdlib \<Rightarrow> bytes \<Rightarrow> stored \<Rightarrow> entries \<Rightarrow> error + entries" where
  "txn_SetEntry L k v es =
     (case txn_modify k (stored_len L v) of
        Some err \<Rightarrow> Inl err
      | None \<Rightarrow> Inr (put_entry k v es))"

definition txn_Delete :: "bytes \<Rightarrow> entries \<Rightarrow> error + entries" where
  "txn_Delete k es =
     (case txn_modify k 0 of
        Some err \<Rightarrow> Inl err
      | None \<Rightarrow> Inr (drop_entry k es))"

definition db_Update :: "DB \<Rightarrow> (entries \<Rightarrow> error + entries) \<Rightarrow> error option \<times> DB" where
  "db_Update d fn =
     (if isClosed d then (Some ErrDBClosed, d)
      else (case fn (entries d) of
              Inl e \<Rightarrow> (Some e, d)
            | Inr es \<Rightarrow> (None, d\<lparr>entries := es\<rparr>)))"

definition db_View :: "DB \<Rightarrow> (entries \<Rightarrow> 'a \<times> error option) \<Rightarrow> 'a \<Rightarrow> 'a \<times> error option" where
  "db_View d fn untouched =
     (if isClosed d then (untouched, Some ErrDBClosed) else fn (entries d))"

text \<open>\<^verbatim>\<open>it.Seek(prefix)\<close>: the iterator moves to the first key that is not below the prefix.\<close>

definition it_Seek :: "bytes \<Rightarrow> entries \<Rightarrow> entries" where
  "it_Seek p es = dropWhile (\<lambda>e. fst e < p) es"

subsection \<open>The repository\<close>

record BadgerRepository =
  db :: DB

text \<open>\<^verbatim>\<open>NewBadgerRepository\<close> on a directory that holds the given entries.\<close>

definition NewBadgerRepository :: "entries \<Rightarrow> BadgerRepository" where
  "NewBadgerRepository es = \<lparr>db = \<lparr>isClosed = False, entries = es\<rparr>\<rparr>"

text \<open>\<^verbatim>\<open>Close\<close>: \<^verbatim>\<open>r.db.Close()\<close> leaves the engine closed, also when it was closed before.\<close>

definition Close :: "BadgerRepository \<Rightarrow> error option \<times> BadgerRepository" where
  "Close r = (None, r\<lparr>db := (db r)\<lparr>isClosed := True\<rparr>\<rparr>)"

text \<open>\<^verbatim>\<open>SaveLink\<close>. \<open>now\<close> is what \<^verbatim>\<open>time.Now()\<close> returns during the call.\<close>

definition SaveLink ::
  "stdlib \<Rightarrow> time \<Rightarrow> Context \<Rightarrow> BadgerRepository \<Rightarrow> Link \<Rightarrow> error option \<times> BadgerRepository" where
  "SaveLink L now ctx r link0 =
     (let link = (if IsZero (Timestamp link0) then link0\<lparr>Timestamp := now\<rparr> else link0) in
      case json_Marshal link of
        Inl err \<Rightarrow> (Some (Wrapped ''failed to marshal link'' err), r)
      | Inr linkBytes \<Rightarrow>
          (let key = generateLinkKey (UserID link) (URL link) in
           case db_Update (db r) (\<lambda>es. txn_SetEntry L key linkBytes es) of
             (Some err, d) \<Rightarrow> (Some (Wrapped ''failed to save link'' err), r\<lparr>db := d\<rparr>)
           | (None, d) \<Rightarrow> (None, r\<lparr>db := d\<rparr>)))"

text \<open>
  The loop of \<^verbatim>\<open>GetLinksByUser\<close> over the iterator: it runs while the key under the
  iterator has the prefix, appends each decoded record to \<^verbatim>\<open>links\<close>, and stops at the
  first value that does not decode, with \<^verbatim>\<open>links\<close> as it is then.
\<close>

fun scan :: "bytes \<Rightarrow> entries \<Rightarrow> Link list \<Rightarrow> Link list \<times> error option" where
  "scan p [] links = (links, None)"
| "scan p ((k, val) # es) links =
     (if \<not> prefix p k then (links, None)
      else (case json_Unmarshal val of
              Inl err \<Rightarrow>
                (links, Some (Wrapped (''failed to unmarshal link data for key '' @ k) err))
            | Inr link \<Rightarrow> scan p es (links @ [link])))"

definition GetLinksByUser ::
  "stdlib \<Rightarrow> Context \<Rightarrow> BadgerRepository \<Rightarrow> int64 \<Rightarrow> Link list \<times> error option" where
  "GetLinksByUser L ctx r userID =
     (case db_View (db r)
             (\<lambda>es. scan (generateUserPrefix userID) (it_Seek (generateUserPrefix userID) es) [])
             [] of
        (links, Some err) \<Rightarrow>
          ([], Some (Wrapped (''failed to get links for user '' @ fmt_d (sint userID)) err))
      | (links, None) \<Rightarrow>
          (sort_Slice L (\<lambda>a b. After (Timestamp a) (Timestamp b)) links, None))"

definition DeleteLink ::
  "Context \<Rightarrow> BadgerRepository \<Rightarrow> int64 \<Rightarrow> string \<Rightarrow> error option \<times> BadgerRepository" where
  "DeleteLink ctx r userID linkURL =
     (let key = generateLinkKey userID linkURL in
      case db_Update (db r) (\<lambda>es. txn_Delete key es) of
        (Some err, d) \<Rightarrow>
          (Some (Wrapped (''failed to delete link '' @ linkURL @ '' for user '' @ fmt_d (sint userID)) err),
           r\<lparr>db := d\<rparr>)
      | (None, d) \<Rightarrow> (None, r\<lparr>db := d\<rparr>))"

subsection \<open>What the properties speak about\<close>

text \<open>The contract of \<^verbatim>\<open>sort.Slice\<close>: it permutes the slice and, for a less function that
  is a transitive ordering in the sense of the documentation of package sort, leaves it
  sorted.\<close>

definition transitive_ordering :: "('a \<Rightarrow> 'a \<Rightarrow> bool) \<Rightarrow> bool" where
  "transitive_ordering lessf =
     ((\<forall>a. \<not> lessf a a) \<and>
      (\<forall>a b c. lessf a b \<and> lessf b c \<longrightarrow> lessf a c) \<and>
      (\<forall>a b c. \<not> lessf a b \<and> \<not> lessf b c \<longrightarrow> \<not> lessf a c))"

definition sort_ok :: "stdlib \<Rightarrow> bool" where
  "sort_ok L =
     (\<forall>lessf xs. mset (sort_Slice L lessf xs) = mset xs \<and>
        (transitive_ordering lessf \<longrightarrow> sorted_wrt (\<lambda>a b. \<not> lessf b a) (sort_Slice L lessf xs)))"

definition stdlib_ok :: "stdlib \<Rightarrow> bool" where
  "stdlib_ok L = sort_ok L"

text \<open>An instance of the contract, for the examples: an insertion sort; and for the
  number of bytes of a document the number of its tokens, which is below it.\<close>

fun insert_sorted :: "('a \<Rightarrow> 'a \<Rightarrow> bool) \<Rightarrow> 'a \<Rightarrow> 'a list \<Rightarrow> 'a list" where
  "insert_sorted lessf x [] = [x]"
| "insert_sorted lessf x (y # ys) =
     (if lessf y x then y # insert_sorted lessf x ys else x # y # ys)"

fun insertionSort :: "('a \<Rightarrow> 'a \<Rightarrow> bool) \<Rightarrow> 'a list \<Rightarrow> 'a list" where
  "insertionSort lessf [] = []"
| "insertionSort lessf (x # xs) = insert_sorted lessf x (insertionSort lessf xs)"

definition example_stdlib :: stdlib where
  "example_stdlib = \<lparr>sort_Slice = insertionSort, marshal_len = (\<lambda>j. int (size j))\<rparr>"

text \<open>The record a value decodes to after \<^verbatim>\<open>json.Marshal\<close>: its strings coerced, its
  timestamp as the text gives it back, its tags nil if there were none.\<close>

definition coerce_Link :: "Link \<Rightarrow> Link" where
  "coerce_Link l = l\<lparr>URL := coerce_utf8 (URL l), Title := coerce_utf8 (Title l),
       Description := coerce_utf8 (Description l), Timestamp := reread (Timestamp l),
       Tags := (case Tags l of None \<Rightarrow> None | Some [] \<Rightarrow> None
                | Some ts \<Rightarrow> Some (map coerce_utf8 ts)),
       PreviewImageURL := coerce_utf8 (PreviewImageURL l)\<rparr>"

text \<open>\<open>decode (encode r)\<close> of the codec.\<close>

definition roundtrip :: "Link \<Rightarrow> error + Link" where
  "roundtrip l = (case json_Marshal l of Inl err \<Rightarrow> Inl err | Inr val \<Rightarrow> json_Unmarshal val)"

definition valid_strings :: "Link \<Rightarrow> bool" where
  "valid_strings l =
     (ValidString (URL l) \<and> ValidString (Title l) \<and> ValidString (Description l) \<and>
      (case Tags l of None \<Rightarrow> True | Some ts \<Rightarrow> list_all ValidString ts) \<and>
      ValidString (PreviewImageURL l))"

text \<open>The record that \<^verbatim>\<open>SaveLink\<close> encodes: the caller's, with the current time for a zero
  timestamp.\<close>

definition stamped :: "time \<Rightarrow> Link \<Rightarrow> Link" where
  "stamped now link = (if IsZero (Timestamp link) then link\<lparr>Timestamp := now\<rparr> else link)"

text \<open>The invariant of the engine (keys in strictly ascending byte order), the test of
  \<^verbatim>\<open>it.ValidForPrefix\<close> on an entry, and whether and to what a stored value decodes.\<close>

definition sorted_keys :: "entries \<Rightarrow> bool" where
  "sorted_keys es = sorted_wrt (\<lambda>a b. fst a < fst b) es"

definition has_prefix :: "bytes \<Rightarrow> bytes \<times> stored \<Rightarrow> bool" where
  "has_prefix p e = prefix p (fst e)"

definition decodes :: "stored \<Rightarrow> bool" where
  "decodes val = (case json_Unmarshal val of Inl _ \<Rightarrow> False | Inr _ \<Rightarrow> True)"

definition decoded :: "stored \<Rightarrow> Link" where
  "decoded val = (case json_Unmarshal val of Inl _ \<Rightarrow> zero_Link | Inr l \<Rightarrow> l)"

text \<open>\<^verbatim>\<open>errors.Is(err, badger.ErrDBClosed)\<close>\<close>

fun is_ErrDBClosed :: "error \<Rightarrow> bool" where
  "is_ErrDBClosed ErrDBClosed = True"
| "is_ErrDBClosed (Wrapped m e) = is_ErrDBClosed e"
| "is_ErrDBClosed _ = False"

text \<open>Sequences of writes, from the first to the last.\<close>

datatype op = Save Context time Link | Delete Context int64 string

fun apply_op :: "stdlib \<Rightarrow> BadgerRepository \<Rightarrow> op \<Rightarrow> BadgerRepository" where
  "apply_op L r (Save ctx now link) = snd (SaveLink L now ctx r link)"
| "apply_op L r (Delete ctx userID linkURL) = snd (DeleteLink ctx r userID linkURL)"

definition run :: "stdlib \<Rightarrow> op list \<Rightarrow> BadgerRepository \<Rightarrow> BadgerRepository" where
  "run L ops r = foldl (apply_op L) r ops"

text \<open>What a sequence of writes on an open store leaves stored, as a map from keys to
  values: a save that the codec and the engine accept puts the encoding of its record
  under the key of the record, a delete that the engine accepts removes the key, and a
  write that fails changes nothing.\<close>

fun effect_op :: "stdlib \<Rightarrow> (bytes \<rightharpoonup> stored) \<Rightarrow> op \<Rightarrow> (bytes \<rightharpoonup> stored)" where
  "effect_op L m (Save ctx now link) =
     (case json_Marshal (stamped now link) of
        Inl err \<Rightarrow> m
      | Inr val \<Rightarrow>
          (case txn_modify (generateLinkKey (UserID link) (URL link)) (stored_len L val) of
             Some err \<Rightarrow> m
           | None \<Rightarrow> m(generateLinkKey (UserID link) (URL link) \<mapsto> val)))"
| "effect_op L m (Delete ctx userID linkURL) =
     (case txn_modify (generateLinkKey userID linkURL) 0 of
        Some err \<Rightarrow> m
      | None \<Rightarrow> m(generateLinkKey userID linkURL := None))"

text \<open>A time in UTC, for the examples.\<close>

definition at_utc :: "int \<Rightarrow> time" where
  "at_utc i = \<lparr>instant = i, offset = 0\<rparr>"

text \<open>Every entry was written by \<^verbatim>\<open>SaveLink\<close>: its key and its value come from one record.\<close>

definition written_by_SaveLink :: "entries \<Rightarrow> bool" where
  "written_by_SaveLink es =
     (\<forall>e \<in> set es. \<exists>l. fst e = generateLinkKey (UserID l) (URL l) \<and> json_Marshal l = Inr (snd e))"

section \<open>Properties\<close>

subsection \<open>Decimal rendering\<close>

lemma of_char_digit_char: "d < 10 \<Longrightarrow> of_char (digit_char d) = (48 + d :: nat)"
  by (simp add: digit_char_def)

lemma dec_val_snoc: "dec_val (s @ [c]) = 10 * dec_val s + (of_char c - 48)"
  by (simp add: dec_val_def)

lemma dec_val_digits: "dec_val (digits n) = n"
proof (induction n rule: digits.induct)
  case (1 n)
  show ?case
  proof (cases "n < 10")
    case True
    then show ?thesis
      by (simp add: digits.simps [of n] dec_val_def of_char_digit_char)
  next
    case False
    with 1 have "dec_val (digits (n div 10)) = n div 10" by simp
    with False show ?thesis
      by (simp add: digits.simps [of n] dec_val_snoc of_char_digit_char)
  qed
qed

lemma digits_inj: "digits m = digits n \<Longrightarrow> m = n"
  by (metis dec_val_digits)

lemma is_digit_digit_char: "d < 10 \<Longrightarrow> is_digit (digit_char d)"
  by (simp add: is_digit_def of_char_digit_char)

lemma digits_all_digit: "\<forall>c \<in> set (digits n). is_digit c"
proof (induction n rule: digits.induct)
  case (1 n)
  show ?case
  proof (cases "n < 10")
    case True
    then show ?thesis by (simp add: digits.simps [of n] is_digit_digit_char)
  next
    case False
    with 1 have "\<forall>c \<in> set (digits (n div 10)). is_digit c" by simp
    with False show ?thesis
      by (simp add: digits.simps [of n] is_digit_digit_char)
  qed
qed

lemma digits_not_Nil: "digits n \<noteq> []"
  by (subst digits.simps) simp

lemma minus_not_digit: "\<not> is_digit CHR ''-''"
  by (simp add: is_digit_def)

lemma colon_not_digit: "\<not> is_digit CHR '':''"
  by (simp add: is_digit_def)

lemma fmt_d_inj: "fmt_d i = fmt_d j \<Longrightarrow> i = j"
proof -
  assume eq: "fmt_d i = fmt_d j"
  have hd_digit: "is_digit (hd (digits n))" for n
    using digits_all_digit [of n] digits_not_Nil [of n] by (cases "digits n") auto
  have neq: "CHR ''-'' # digits m \<noteq> digits n" for m n
    using hd_digit [of n] minus_not_digit by (cases "digits n") auto
  show ?thesis
  proof (cases "i < 0")
    case True
    show ?thesis
    proof (cases "j < 0")
      case True
      with \<open>i < 0\<close> eq have "digits (nat (- i)) = digits (nat (- j))"
        by (simp add: fmt_d_def)
      then have "nat (- i) = nat (- j)" by (rule digits_inj)
      with True \<open>i < 0\<close> show ?thesis by simp
    next
      case False
      with \<open>i < 0\<close> eq neq show ?thesis by (simp add: fmt_d_def)
    qed
  next
    case False
    show ?thesis
    proof (cases "j < 0")
      case True
      with False eq neq [of "nat (- j)" "nat i"] show ?thesis
        by (simp add: fmt_d_def)
    next
      case False
      with \<open>\<not> i < 0\<close> eq have "digits (nat i) = digits (nat j)"
        by (simp add: fmt_d_def)
      then have "nat i = nat j" by (rule digits_inj)
      with False \<open>\<not> i < 0\<close> show ?thesis by simp
    qed
  qed
qed

lemma colon_notin_fmt_d: "CHR '':'' \<notin> set (fmt_d i)"
  using digits_all_digit colon_not_digit by (auto simp: fmt_d_def)

subsection \<open>Keys and prefixes\<close>

lemma delimited_prefix_eq:
  "c \<notin> set a \<Longrightarrow> c \<notin> set b \<Longrightarrow> prefix (a @ c # x) (b @ c # y) \<Longrightarrow> a = b"
proof (induction a arbitrary: b)
  case Nil
  then show ?case by (cases b) auto
next
  case (Cons u a)
  then show ?case by (cases b) auto
qed

lemma user_prefix_iff:
  "prefix (generateUserPrefix a) (generateLinkKey b url) \<longleftrightarrow> a = b"
proof
  assume "prefix (generateUserPrefix a) (generateLinkKey b url)"
  then have "prefix (fmt_d (sint a) @ CHR '':'' # ''link:'')
                    (fmt_d (sint b) @ CHR '':'' # ''link:'' @ url)"
    by (simp add: generateUserPrefix_def generateLinkKey_def)
  then have "fmt_d (sint a) = fmt_d (sint b)"
    by (rule delimited_prefix_eq [OF colon_notin_fmt_d colon_notin_fmt_d])
  then have "sint a = sint b" by (rule fmt_d_inj)
  then show "a = b" by (rule signed_word_eqI)
next
  assume "a = b"
  then show "prefix (generateUserPrefix a) (generateLinkKey b url)"
    by (simp add: generateUserPrefix_def generateLinkKey_def)
qed


subsection \<open>The codec\<close>

lemma coerce_utf8_valid: "ValidString s \<Longrightarrow> coerce_utf8 s = s"
proof (induction s rule: coerce_utf8.induct)
  case 1
  then show ?case by simp
next
  case (2 c cs)
  from "2.prems" have nz: "rune_size (c # cs) \<noteq> 0"
    and rest: "ValidString (drop (rune_size (c # cs)) (c # cs))"
    by (auto simp: ValidString.simps(2) split: if_splits)
  from "2.IH"(2) [OF nz rest] nz show ?case
    by (simp add: coerce_utf8.simps(2))
qed

lemma coerce_utf8_Nil_iff: "coerce_utf8 s = [] \<longleftrightarrow> s = []"
proof (cases s)
  case Nil then show ?thesis by simp
next
  case (Cons c cs)
  then show ?thesis
    by (auto simp: coerce_utf8.simps(2) replacement_char_def)
qed

lemma decode_strings_map:
  "decode_strings (map (\<lambda>s. JString (f s)) ts) = Some (map f ts)"
  by (induction ts) auto

lemma int64_range: "- (2 ^ 63) \<le> sint (w :: int64) \<and> sint w < 2 ^ 63"
  using sint_ge [of w] sint_lt [of w] by simp

lemma Time_MarshalJSON_Inr:
  "Time_MarshalJSON t = Inr j \<longleftrightarrow>
     MarshalJSON_accepts t \<and> j = JTime (wall_clock t) (zone_minutes t)"
  by (auto simp: Time_MarshalJSON_def)

lemma Time_reread:
  "Time_MarshalJSON t = Inr j \<Longrightarrow> Time_UnmarshalJSON j cur = Some (reread t)"
  by (simp add: Time_MarshalJSON_Inr MarshalJSON_accepts_def Time_UnmarshalJSON_def reread_def)

lemma zone_minutes_whole: "offset t mod 60 = 0 \<Longrightarrow> zone_minutes t * 60 = offset t"
proof -
  assume "offset t mod 60 = 0"
  then obtain k where k: "offset t = 60 * k" by (auto simp: mod_eq_0_iff_dvd)
  have "- (60 * k) div 60 = - k" by (metis minus_mult_right nonzero_mult_div_cancel_left zero_neq_numeral)
  with k show ?thesis by (simp add: zone_minutes_def)
qed

lemma reread_whole_minutes: "offset t mod 60 = 0 \<Longrightarrow> reread t = t"
  by (simp add: reread_def zone_minutes_whole wall_clock_def)

lemma instant_reread:
  "instant (reread t) = instant t + (offset t - zone_minutes t * 60) * 1000000000"
  by (simp add: reread_def wall_clock_def algebra_simps)

lemma json_Marshal_Inr:
  "(\<exists>val. json_Marshal l = Inr val) \<longleftrightarrow> MarshalJSON_accepts (Timestamp l)"
  by (auto simp: json_Marshal_def Time_MarshalJSON_def)

lemma json_Marshal_Inl:
  "json_Marshal l = Inl err \<longleftrightarrow> \<not> MarshalJSON_accepts (Timestamp l) \<and> err = MarshalerError"
  by (auto simp: json_Marshal_def Time_MarshalJSON_def)

lemma unmarshal_marshal:
  assumes "json_Marshal l = Inr v"
  shows "json_Unmarshal v = Inr (coerce_Link l)"
proof -
  from assms obtain ts where ts: "Time_MarshalJSON (Timestamp l) = Inr ts"
    by (auto simp: json_Marshal_def split: sum.splits)
  note tm = Time_reread [OF ts, of "\<lparr>instant = 0, offset = 0\<rparr>"]
  note rng = int64_range [of "UserID l"]
  show ?thesis
  proof (cases "Tags l")
    case None
    with assms ts tm rng show ?thesis
      by (cases l)
         (auto simp: json_Marshal_def json_Unmarshal_def set_field_def zero_Link_def
            coerce_Link_def coerce_utf8_Nil_iff)
  next
    case (Some tags)
    with assms ts tm rng show ?thesis
      by (cases l; cases tags)
         (auto simp: json_Marshal_def json_Unmarshal_def set_field_def zero_Link_def
            coerce_Link_def decode_strings_map [of coerce_utf8] coerce_utf8_Nil_iff)
  qed
qed

subsection \<open>The scan of the iterator\<close>

lemma has_prefix_pair [simp]: "has_prefix p (k, v) = prefix p k"
  by (simp add: has_prefix_def)

lemma prefix_le: "prefix p (k :: string) \<Longrightarrow> p \<le> k"
proof (induction p arbitrary: k)
  case Nil then show ?case by simp
next
  case (Cons a p) then show ?case by (cases k) auto
qed

lemma past_prefix:
  "p \<le> k \<Longrightarrow> \<not> prefix p k \<Longrightarrow> k < k' \<Longrightarrow> \<not> prefix p (k' :: string)"
proof (induction p arbitrary: k k')
  case Nil then show ?case by simp
next
  case (Cons a p)
  show ?case
  proof (cases k)
    case Nil with Cons.prems show ?thesis by simp
  next
    case kc: (Cons b k1)
    show ?thesis
    proof (cases k')
      case Nil with Cons.prems show ?thesis by simp
    next
      case (Cons c k1')
      with kc Cons.prems Cons.IH [of k1 k1'] show ?thesis by auto
    qed
  qed
qed

lemma filter_dropWhile_disjoint:
  "(\<And>x. Q x \<Longrightarrow> \<not> P x) \<Longrightarrow> filter P (dropWhile Q xs) = filter P xs"
  by (induction xs) auto

lemma sorted_keys_Cons:
  "sorted_keys (e # es) \<longleftrightarrow> (\<forall>x \<in> set es. fst e < fst x) \<and> sorted_keys es"
  by (simp add: sorted_keys_def)

lemma sorted_keys_dropWhile: "sorted_keys es \<Longrightarrow> sorted_keys (dropWhile Q es)"
  by (induction es) (auto simp: sorted_keys_Cons dest: set_dropWhileD)

lemma takeWhile_prefix_filter:
  "sorted_keys es \<Longrightarrow> (\<forall>e \<in> set es. p \<le> fst e)
     \<Longrightarrow> takeWhile (has_prefix p) es = filter (has_prefix p) es"
proof (induction es)
  case Nil then show ?case by simp
next
  case (Cons e es)
  show ?case
  proof (cases "has_prefix p e")
    case True
    with Cons show ?thesis by (simp add: sorted_keys_Cons)
  next
    case False
    have "\<not> has_prefix p x" if "x \<in> set es" for x
      using past_prefix [of p "fst e" "fst x"] Cons.prems False that
      by (auto simp: has_prefix_def sorted_keys_Cons)
    then have "filter (has_prefix p) es = []" by (simp add: filter_empty_conv)
    with False show ?thesis by simp
  qed
qed

lemma dropWhile_all_ge:
  "sorted_keys es \<Longrightarrow> \<forall>e \<in> set (dropWhile (\<lambda>e. fst e < p) es). p \<le> fst e"
proof (induction es)
  case Nil then show ?case by simp
next
  case (Cons e es)
  then show ?case by (auto simp: sorted_keys_Cons)
qed

lemma scan_range:
  assumes "sorted_keys es"
  shows "takeWhile (has_prefix p) (it_Seek p es) = filter (has_prefix p) es"
proof -
  have "takeWhile (has_prefix p) (it_Seek p es) = filter (has_prefix p) (it_Seek p es)"
    unfolding it_Seek_def
    by (rule takeWhile_prefix_filter [OF sorted_keys_dropWhile [OF assms] dropWhile_all_ge [OF assms]])
  also have "\<dots> = filter (has_prefix p) es"
    unfolding it_Seek_def
    by (rule filter_dropWhile_disjoint) (use prefix_le in \<open>fastforce simp: has_prefix_def\<close>)
  finally show ?thesis .
qed

lemma scan_all_decode:
  "\<forall>e \<in> set (takeWhile (has_prefix p) es). decodes (snd e)
    \<Longrightarrow> scan p es acc = (acc @ map (\<lambda>e. decoded (snd e)) (takeWhile (has_prefix p) es), None)"
proof (induction es arbitrary: acc)
  case Nil then show ?case by simp
next
  case (Cons e es)
  obtain k v where e: "e = (k, v)" by (cases e)
  show ?case
  proof (cases "prefix p k")
    case False
    with e show ?thesis by simp
  next
    case True
    with Cons.prems e obtain l where l: "json_Unmarshal v = Inr l"
      by (auto simp: decodes_def split: sum.splits)
    from Cons.prems True e
    have "\<forall>e \<in> set (takeWhile (has_prefix p) es). decodes (snd e)"
      by simp
    from Cons.IH [OF this, of "acc @ [l]"] True e l show ?thesis
      by (simp add: decoded_def)
  qed
qed

lemma scan_some_fails:
  "\<exists>e \<in> set (takeWhile (has_prefix p) es). \<not> decodes (snd e)
    \<Longrightarrow> \<exists>ls err. scan p es acc = (ls, Some err)"
proof (induction es arbitrary: acc)
  case Nil then show ?case by simp
next
  case (Cons e es)
  obtain k v where e: "e = (k, v)" by (cases e)
  show ?case
  proof (cases "prefix p k")
    case False
    with Cons.prems e show ?thesis by simp
  next
    case True
    show ?thesis
    proof (cases "json_Unmarshal v")
      case (Inl err)
      with True e show ?thesis by simp
    next
      case (Inr l)
      with Cons.prems True e
      have "\<exists>e \<in> set (takeWhile (has_prefix p) es). \<not> decodes (snd e)"
        by (auto simp: decodes_def)
      from Cons.IH [OF this, of "acc @ [l]"] True e Inr show ?thesis by simp
    qed
  qed
qed

subsection \<open>Writes of the engine\<close>

lemma set_put_entry: "set (put_entry k v es) \<subseteq> insert (k, v) (set es)"
  by (induction es) (auto split: if_splits)


lemma sorted_keys_put_entry: "sorted_keys es \<Longrightarrow> sorted_keys (put_entry k v es)"
proof (induction es)
  case Nil then show ?case by (simp add: sorted_keys_def)
next
  case (Cons e es)
  obtain k' v' where e: "e = (k', v')" by (cases e)
  have "\<forall>x \<in> set (put_entry k v es). fst x = k \<or> x \<in> set es"
    using set_put_entry [of k v es] by auto
  with Cons e show ?case by (fastforce simp: sorted_keys_Cons)
qed

lemma map_of_put_entry: "map_of (put_entry k v es) = (map_of es)(k \<mapsto> v)"
  by (induction es) (auto simp: fun_eq_iff)



lemma sorted_keys_drop_entry: "sorted_keys es \<Longrightarrow> sorted_keys (drop_entry k es)"
  by (induction es) (auto simp: sorted_keys_Cons drop_entry_def)

lemma drop_entry_twice: "drop_entry k (drop_entry k es) = drop_entry k es"
  by (simp add: drop_entry_def)

lemma drop_entry_absent: "k \<notin> fst ` set es \<Longrightarrow> drop_entry k es = es"
  by (induction es) (auto simp: drop_entry_def)

lemma set_drop_entry: "set (drop_entry k es) \<subseteq> set es"
  by (auto simp: drop_entry_def)

lemma sorted_keys_distinct: "sorted_keys es \<Longrightarrow> distinct (map fst es)"
  by (induction es) (auto simp: sorted_keys_Cons)

lemma sorted_keys_strict: "sorted_keys es \<Longrightarrow> sorted_wrt (<) (map fst es)"
  by (simp add: sorted_keys_def sorted_wrt_map)

lemma entries_from_map:
  "distinct (map fst es) \<Longrightarrow> map (\<lambda>k. (k, the (map_of es k))) (map fst es) = es"
proof (induction es)
  case Nil then show ?case by simp
next
  case (Cons e es)
  obtain k0 v0 where e: "e = (k0, v0)" by (cases e)
  have "map (\<lambda>k. (k, the (map_of (e # es) k))) (map fst es)
        = map (\<lambda>k. (k, the (map_of es k))) (map fst es)"
    using Cons.prems e by (intro map_cong) auto
  with Cons show ?case by simp
qed

lemma sorted_keys_unique:
  assumes "sorted_keys es" and "sorted_keys es'" and "map_of es = map_of es'"
  shows "es = es'"
proof -
  have "set (map fst es) = set (map fst es')"
    using assms(3) by (metis dom_map_of_conv_image_fst set_map)
  moreover have "sorted_wrt (<) (map fst es)" "sorted_wrt (<) (map fst es')"
    using assms(1,2) by (simp_all add: sorted_keys_strict)
  ultimately have keys: "map fst es = map fst es'"
    by (metis strict_sorted_equal)
  have "es = map (\<lambda>k. (k, the (map_of es k))) (map fst es)"
    using entries_from_map [OF sorted_keys_distinct [OF assms(1)]] by simp
  also have "\<dots> = map (\<lambda>k. (k, the (map_of es' k))) (map fst es')"
    using keys assms(3) by simp
  also have "\<dots> = es'"
    using entries_from_map [OF sorted_keys_distinct [OF assms(2)]] by simp
  finally show ?thesis .
qed

subsection \<open>The example instance\<close>

lemma mset_insert_sorted: "mset (insert_sorted lt x ys) = add_mset x (mset ys)"
  by (induction ys) auto

lemma mset_insertionSort: "mset (insertionSort lt xs) = mset xs"
  by (induction xs) (auto simp: mset_insert_sorted)

lemma set_insert_sorted: "set (insert_sorted lt x ys) = insert x (set ys)"
  by (metis mset_insert_sorted set_mset_add_mset_insert set_mset_mset)

lemma sorted_insert_sorted:
  assumes "transitive_ordering lt" and "sorted_wrt (\<lambda>a b. \<not> lt b a) ys"
  shows "sorted_wrt (\<lambda>a b. \<not> lt b a) (insert_sorted lt x ys)"
  using assms(2)
proof (induction ys)
  case Nil then show ?case by simp
next
  case (Cons y ys)
  from assms(1) have asym: "lt a b \<Longrightarrow> \<not> lt b a" for a b
    unfolding transitive_ordering_def by blast
  from assms(1) have neg: "\<not> lt a b \<Longrightarrow> \<not> lt b c \<Longrightarrow> \<not> lt a c" for a b c
    unfolding transitive_ordering_def by blast
  show ?case
  proof (cases "lt y x")
    case True
    with Cons asym show ?thesis by (auto simp: set_insert_sorted)
  next
    case False
    with Cons.prems neg show ?thesis by auto
  qed
qed

lemma sorted_insertionSort:
  "transitive_ordering lt \<Longrightarrow> sorted_wrt (\<lambda>a b. \<not> lt b a) (insertionSort lt xs)"
  by (induction xs) (auto intro: sorted_insert_sorted)

lemma example_stdlib_ok: "stdlib_ok example_stdlib"
  by (simp add: stdlib_ok_def sort_ok_def example_stdlib_def
      mset_insertionSort sorted_insertionSort)

subsection \<open>The operations of the repository\<close>

lemma length_generateLinkKey:
  "length (generateLinkKey u url) = 11 + length (fmt_d (sint u)) + length url"
  by (simp add: generateLinkKey_def)

lemma txn_modify_generated:
  "txn_modify (generateLinkKey u url) n =
     (if 65000 < int (length (generateLinkKey u url)) then Some ErrKeyTooLarge
      else if 1073741823 < n then Some ErrValueTooLarge
      else None)"
  by (simp add: txn_modify_def generateLinkKey_def)

lemma UserID_stamped [simp]: "UserID (stamped now l) = UserID l"
  by (simp add: stamped_def)

lemma URL_stamped [simp]: "URL (stamped now l) = URL l"
  by (simp add: stamped_def)

lemma Timestamp_stamped:
  "Timestamp (stamped now l) = (if IsZero (Timestamp l) then now else Timestamp l)"
  by (simp add: stamped_def)

lemma SaveLink_marshal_fails:
  "json_Marshal (stamped now l) = Inl err
    \<Longrightarrow> SaveLink L now ctx r l = (Some (Wrapped ''failed to marshal link'' err), r)"
  by (simp add: SaveLink_def stamped_def Let_def)

lemma SaveLink_closed:
  "json_Marshal (stamped now l) = Inr val \<Longrightarrow> isClosed (db r)
    \<Longrightarrow> SaveLink L now ctx r l = (Some (Wrapped ''failed to save link'' ErrDBClosed), r)"
  by (simp add: SaveLink_def stamped_def Let_def db_Update_def)

lemma SaveLink_refused:
  "json_Marshal (stamped now l) = Inr val \<Longrightarrow> \<not> isClosed (db r)
    \<Longrightarrow> txn_modify (generateLinkKey (UserID l) (URL l)) (stored_len L val) = Some err
    \<Longrightarrow> SaveLink L now ctx r l = (Some (Wrapped ''failed to save link'' err), r)"
  by (simp add: SaveLink_def stamped_def Let_def db_Update_def txn_SetEntry_def)

lemma SaveLink_open:
  "json_Marshal (stamped now l) = Inr val \<Longrightarrow> \<not> isClosed (db r)
    \<Longrightarrow> txn_modify (generateLinkKey (UserID l) (URL l)) (stored_len L val) = None
    \<Longrightarrow> SaveLink L now ctx r l =
          (None, r\<lparr>db := (db r)\<lparr>entries :=
             put_entry (generateLinkKey (UserID l) (URL l)) val (entries (db r))\<rparr>\<rparr>)"
  by (simp add: SaveLink_def stamped_def Let_def db_Update_def txn_SetEntry_def)

lemma SaveLink_writes_or_not:
  "(fst (SaveLink L now ctx r l) \<noteq> None \<and> snd (SaveLink L now ctx r l) = r)
   \<or> (\<not> isClosed (db r)
       \<and> (\<exists>val. json_Marshal (stamped now l) = Inr val
             \<and> txn_modify (generateLinkKey (UserID l) (URL l)) (stored_len L val) = None
             \<and> SaveLink L now ctx r l =
                  (None, r\<lparr>db := (db r)\<lparr>entries :=
                     put_entry (generateLinkKey (UserID l) (URL l)) val (entries (db r))\<rparr>\<rparr>)))"
proof (cases "json_Marshal (stamped now l)")
  case (Inl err)
  from SaveLink_marshal_fails [OF this] show ?thesis by simp
next
  case (Inr val)
  show ?thesis
  proof (cases "isClosed (db r)")
    case True
    from SaveLink_closed [OF Inr True] show ?thesis by simp
  next
    case False
    show ?thesis
    proof (cases "txn_modify (generateLinkKey (UserID l) (URL l)) (stored_len L val)")
      case None
      from SaveLink_open [OF Inr False None] Inr False None show ?thesis by simp
    next
      case (Some err)
      from SaveLink_refused [OF Inr False Some] show ?thesis by simp
    qed
  qed
qed


lemma DeleteLink_closed:
  "isClosed (db r) \<Longrightarrow> DeleteLink ctx r u url =
     (Some (Wrapped (''failed to delete link '' @ url @ '' for user '' @ fmt_d (sint u)) ErrDBClosed), r)"
  by (simp add: DeleteLink_def db_Update_def)

lemma DeleteLink_refused:
  "\<not> isClosed (db r) \<Longrightarrow> 65000 < int (length (generateLinkKey u url)) \<Longrightarrow> DeleteLink ctx r u url =
     (Some (Wrapped (''failed to delete link '' @ url @ '' for user '' @ fmt_d (sint u))
        ErrKeyTooLarge), r)"
  by (simp add: DeleteLink_def db_Update_def txn_Delete_def txn_modify_generated)

lemma DeleteLink_open:
  "\<not> isClosed (db r) \<Longrightarrow> int (length (generateLinkKey u url)) \<le> 65000 \<Longrightarrow> DeleteLink ctx r u url =
     (None, r\<lparr>db := (db r)\<lparr>entries := drop_entry (generateLinkKey u url) (entries (db r))\<rparr>\<rparr>)"
  by (simp add: DeleteLink_def db_Update_def txn_Delete_def txn_modify_generated)

lemma DeleteLink_writes_or_not:
  "snd (DeleteLink ctx r u url) = r
   \<or> snd (DeleteLink ctx r u url)
       = r\<lparr>db := (db r)\<lparr>entries := drop_entry (generateLinkKey u url) (entries (db r))\<rparr>\<rparr>"
proof (cases "isClosed (db r)")
  case True
  then show ?thesis by (simp add: DeleteLink_closed)
next
  case False
  then show ?thesis
    by (cases "65000 < int (length (generateLinkKey u url))")
       (simp_all add: DeleteLink_refused DeleteLink_open)
qed

lemma GetLinksByUser_closed:
  "isClosed (db r) \<Longrightarrow> GetLinksByUser L ctx r A =
     ([], Some (Wrapped (''failed to get links for user '' @ fmt_d (sint A)) ErrDBClosed))"
  by (simp add: GetLinksByUser_def db_View_def)

lemma GetLinksByUser_open_ok:
  assumes "\<not> isClosed (db r)" and "sorted_keys (entries (db r))"
    and "\<forall>e \<in> set (entries (db r)). has_prefix (generateUserPrefix A) e \<longrightarrow> decodes (snd e)"
  shows "GetLinksByUser L ctx r A =
     (sort_Slice L (\<lambda>a b. After (Timestamp a) (Timestamp b))
        (map (\<lambda>e. decoded (snd e)) (filter (has_prefix (generateUserPrefix A)) (entries (db r)))),
      None)"
proof -
  let ?p = "generateUserPrefix A"
  have rng: "takeWhile (has_prefix ?p) (it_Seek ?p (entries (db r)))
             = filter (has_prefix ?p) (entries (db r))"
    by (rule scan_range [OF assms(2)])
  with assms(3)
  have "\<forall>e \<in> set (takeWhile (has_prefix ?p) (it_Seek ?p (entries (db r)))). decodes (snd e)"
    by simp
  from scan_all_decode [OF this, of "[]"] rng assms(1) show ?thesis
    by (simp add: GetLinksByUser_def db_View_def)
qed

lemma GetLinksByUser_open_fails:
  assumes "sorted_keys (entries (db r))"
    and "\<exists>e \<in> set (entries (db r)). has_prefix (generateUserPrefix A) e \<and> \<not> decodes (snd e)"
  shows "\<exists>err. GetLinksByUser L ctx r A = ([], Some err)"
proof (cases "isClosed (db r)")
  case True
  then show ?thesis by (simp add: GetLinksByUser_closed)
next
  case False
  let ?p = "generateUserPrefix A"
  have rng: "takeWhile (has_prefix ?p) (it_Seek ?p (entries (db r)))
             = filter (has_prefix ?p) (entries (db r))"
    by (rule scan_range [OF assms(1)])
  from assms(2) obtain e where "e \<in> set (entries (db r))" "has_prefix ?p e" "\<not> decodes (snd e)"
    by blast
  then have "\<exists>e \<in> set (filter (has_prefix ?p) (entries (db r))). \<not> decodes (snd e)"
    by (intro bexI [of _ e]) simp_all
  then have "\<exists>e \<in> set (takeWhile (has_prefix ?p) (it_Seek ?p (entries (db r)))). \<not> decodes (snd e)"
    by (simp only: rng)
  from scan_some_fails [OF this, of "[]"] obtain ls err
    where "scan ?p (it_Seek ?p (entries (db r))) [] = (ls, Some err)" by blast
  with False show ?thesis
    by (simp add: GetLinksByUser_def db_View_def)
qed

text \<open>
  Claim C4. With the engine's keys in order: if one value under the user's prefix does not
  decode, \<open>GetLinksByUser\<close> returns an error and the empty list of records, never the
  records decoded before it; if the store is open and every value under the prefix
  decodes, it returns no error.
\<close>

theorem GetLinksByUser_fail_fast:
  assumes "sorted_keys (entries (db r))"
  shows "((\<exists>e \<in> set (entries (db r)).
            has_prefix (generateUserPrefix A) e \<and> \<not> decodes (snd e))
          \<longrightarrow> (\<exists>err. GetLinksByUser L ctx r A = ([], Some err)))
       \<and> (\<not> isClosed (db r) \<and>
           (\<forall>e \<in> set (entries (db r)).
              has_prefix (generateUserPrefix A) e \<longrightarrow> decodes (snd e))
          \<longrightarrow> snd (GetLinksByUser L ctx r A) = None)"
  using GetLinksByUser_open_fails [OF assms] GetLinksByUser_open_ok [OF _ assms]
  by auto

theorem GetLinksByUser_fail_fast_witness:
  "sorted_keys (entries (db (NewBadgerRepository
       [(''user:7:link:a'', JSONText JNull), (''user:7:link:b'', NotJSON ''x'')])))
   \<and> (\<exists>err. GetLinksByUser example_stdlib None (NewBadgerRepository
       [(''user:7:link:a'', JSONText JNull), (''user:7:link:b'', NotJSON ''x'')]) 7 = ([], Some err))
   \<and> scan ''user:7:link:''
       [(''user:7:link:a'', JSONText JNull), (''user:7:link:b'', NotJSON ''x'')] []
       = ([zero_Link],
          Some (Wrapped ''failed to unmarshal link data for key user:7:link:b'' UnmarshalError))
   \<and> snd (GetLinksByUser example_stdlib None (NewBadgerRepository
       [(''user:7:link:a'', JSONText JNull), (''user:8:link:b'', NotJSON ''x'')]) 7) = None"
proof -
  let ?bad = "NewBadgerRepository
       [(''user:7:link:a'', JSONText JNull), (''user:7:link:b'', NotJSON ''x'')]"
  let ?good = "NewBadgerRepository
       [(''user:7:link:a'', JSONText JNull), (''user:8:link:b'', NotJSON ''x'')]"
  have s1: "sorted_keys (entries (db ?bad))" by code_simp
  have s2: "sorted_keys (entries (db ?good))" by code_simp
  have b: "\<exists>e \<in> set (entries (db ?bad)).
             has_prefix (generateUserPrefix 7) e \<and> \<not> decodes (snd e)"
    by code_simp
  have g: "\<not> isClosed (db ?good) \<and> (\<forall>e \<in> set (entries (db ?good)).
             has_prefix (generateUserPrefix 7) e \<longrightarrow> decodes (snd e))"
    by code_simp
  have sc: "scan ''user:7:link:''
       [(''user:7:link:a'', JSONText JNull), (''user:7:link:b'', NotJSON ''x'')] []
       = ([zero_Link],
          Some (Wrapped ''failed to unmarshal link data for key user:7:link:b'' UnmarshalError))"
    by code_simp
  from GetLinksByUser_fail_fast [OF s1, of 7 example_stdlib None] b
  have 1: "\<exists>err. GetLinksByUser example_stdlib None ?bad 7 = ([], Some err)" by blast
  from GetLinksByUser_fail_fast [OF s2, of 7 example_stdlib None] g
  have 2: "snd (GetLinksByUser example_stdlib None ?good 7) = None" by blast
  from s1 1 2 sc show ?thesis by blast
qed

subsection \<open>Invariants of the stores that the operations build\<close>

lemma apply_op_writes_or_not:
  "apply_op L r x = r
   \<or> (\<exists>l val. json_Marshal l = Inr val
         \<and> apply_op L r x = r\<lparr>db := (db r)\<lparr>entries :=
              put_entry (generateLinkKey (UserID l) (URL l)) val (entries (db r))\<rparr>\<rparr>)
   \<or> (\<exists>k. apply_op L r x = r\<lparr>db := (db r)\<lparr>entries := drop_entry k (entries (db r))\<rparr>\<rparr>)"
proof (cases x)
  case (Save ctx now link)
  from SaveLink_writes_or_not [of L now ctx r link] show ?thesis
  proof
    assume "fst (SaveLink L now ctx r link) \<noteq> None \<and> snd (SaveLink L now ctx r link) = r"
    with Save show ?thesis by simp
  next
    assume "\<not> isClosed (db r)
       \<and> (\<exists>val. json_Marshal (stamped now link) = Inr val
             \<and> txn_modify (generateLinkKey (UserID link) (URL link)) (stored_len L val) = None
             \<and> SaveLink L now ctx r link =
                  (None, r\<lparr>db := (db r)\<lparr>entries :=
                     put_entry (generateLinkKey (UserID link) (URL link)) val (entries (db r))\<rparr>\<rparr>))"
    then obtain val where m: "json_Marshal (stamped now link) = Inr val"
      and s: "SaveLink L now ctx r link =
                  (None, r\<lparr>db := (db r)\<lparr>entries :=
                     put_entry (generateLinkKey (UserID link) (URL link)) val (entries (db r))\<rparr>\<rparr>)"
      by blast
    have "json_Marshal (stamped now link) = Inr val
         \<and> apply_op L r x = r\<lparr>db := (db r)\<lparr>entries :=
              put_entry (generateLinkKey (UserID (stamped now link)) (URL (stamped now link))) val
                (entries (db r))\<rparr>\<rparr>"
      using m s Save by simp
    then show ?thesis by blast
  qed
next
  case (Delete ctx u url)
  with DeleteLink_writes_or_not [of ctx r u url] show ?thesis by auto
qed

lemma apply_op_isClosed: "isClosed (db (apply_op L r x)) = isClosed (db r)"
  using apply_op_writes_or_not [of L r x] by auto

lemma apply_op_sorted_keys:
  "sorted_keys (entries (db r)) \<Longrightarrow> sorted_keys (entries (db (apply_op L r x)))"
  using apply_op_writes_or_not [of L r x]
  by (auto simp: sorted_keys_put_entry sorted_keys_drop_entry)

lemma written_by_put_entry:
  assumes "written_by_SaveLink es" and "json_Marshal l = Inr val"
  shows "written_by_SaveLink (put_entry (generateLinkKey (UserID l) (URL l)) val es)"
  unfolding written_by_SaveLink_def
proof
  fix e assume "e \<in> set (put_entry (generateLinkKey (UserID l) (URL l)) val es)"
  with set_put_entry have "e = (generateLinkKey (UserID l) (URL l), val) \<or> e \<in> set es"
    by fastforce
  then show "\<exists>l. fst e = generateLinkKey (UserID l) (URL l) \<and> json_Marshal l = Inr (snd e)"
  proof
    assume "e = (generateLinkKey (UserID l) (URL l), val)"
    with assms(2) show ?thesis by (intro exI [of _ l]) simp
  next
    assume "e \<in> set es"
    with assms(1) show ?thesis by (simp add: written_by_SaveLink_def)
  qed
qed

lemma written_by_drop_entry:
  "written_by_SaveLink es \<Longrightarrow> written_by_SaveLink (drop_entry k es)"
  by (simp add: written_by_SaveLink_def drop_entry_def)

lemma apply_op_written_by:
  "written_by_SaveLink (entries (db r)) \<Longrightarrow> written_by_SaveLink (entries (db (apply_op L r x)))"
  using apply_op_writes_or_not [of L r x]
  by (auto simp: written_by_put_entry written_by_drop_entry)

lemma run_invariants:
  "sorted_keys (entries (db r)) \<Longrightarrow> written_by_SaveLink (entries (db r))
    \<Longrightarrow> sorted_keys (entries (db (run L ops r)))
        \<and> written_by_SaveLink (entries (db (run L ops r)))
        \<and> isClosed (db (run L ops r)) = isClosed (db r)"
proof (induction ops arbitrary: r)
  case Nil
  then show ?case by (simp add: run_def)
next
  case (Cons x ops)
  from Cons.IH [of "apply_op L r x"] Cons.prems show ?case
    by (simp add: run_def apply_op_sorted_keys apply_op_written_by apply_op_isClosed)
qed

lemma run_fresh_invariants:
  "sorted_keys (entries (db (run L ops (NewBadgerRepository []))))
     \<and> written_by_SaveLink (entries (db (run L ops (NewBadgerRepository []))))
     \<and> \<not> isClosed (db (run L ops (NewBadgerRepository [])))"
  using run_invariants [of "NewBadgerRepository []" L ops]
  by (simp add: NewBadgerRepository_def sorted_keys_def written_by_SaveLink_def)

lemma UserID_coerce_Link: "UserID (coerce_Link l) = UserID l"
  by (simp add: coerce_Link_def)

lemma written_entry_decodes:
  assumes "written_by_SaveLink es" and "e \<in> set es"
    and "has_prefix (generateUserPrefix A) e"
  shows "decodes (snd e) \<and> UserID (decoded (snd e)) = A"
proof -
  from assms(1,2) obtain l where k: "fst e = generateLinkKey (UserID l) (URL l)"
    and m: "json_Marshal l = Inr (snd e)"
    by (auto simp: written_by_SaveLink_def)
  from unmarshal_marshal [OF m] have d: "json_Unmarshal (snd e) = Inr (coerce_Link l)" .
  from assms(3) k have "A = UserID l"
    by (simp add: has_prefix_def user_prefix_iff)
  with d show ?thesis by (simp add: decodes_def decoded_def UserID_coerce_Link)
qed

lemma fresh_run_get:
  assumes "stdlib_ok L"
  shows "GetLinksByUser L ctx (run L ops (NewBadgerRepository [])) A =
     (sort_Slice L (\<lambda>a b. After (Timestamp a) (Timestamp b))
        (map (\<lambda>e. decoded (snd e))
           (filter (has_prefix (generateUserPrefix A))
              (entries (db (run L ops (NewBadgerRepository [])))))), None)"
proof -
  note inv = run_fresh_invariants [of L ops]
  have "\<forall>e \<in> set (entries (db (run L ops (NewBadgerRepository [])))).
          has_prefix (generateUserPrefix A) e \<longrightarrow> decodes (snd e)"
    using written_entry_decodes inv by blast
  with inv show ?thesis by (intro GetLinksByUser_open_ok) simp_all
qed

text \<open>
  Claim C1. After any sequence of \<open>SaveLink\<close> and \<open>DeleteLink\<close> calls on a fresh store, with
  arbitrary user ids and URLs, every record that \<open>GetLinksByUser\<close> returns for user \<open>A\<close>
  has user id \<open>A\<close>; the records returned are those of exactly the entries whose key has
  the prefix of \<open>A\<close>; and the prefix of \<open>A\<close> matches the key of \<open>(B, url)\<close> exactly when
  \<open>B = A\<close>.
\<close>

theorem GetLinksByUser_isolation:
  assumes "stdlib_ok L"
  shows "(\<forall>l \<in> set (fst (GetLinksByUser L ctx (run L ops (NewBadgerRepository [])) A)). UserID l = A)
       \<and> mset (fst (GetLinksByUser L ctx (run L ops (NewBadgerRepository [])) A))
           = mset (map (\<lambda>e. decoded (snd e))
               (filter (has_prefix (generateUserPrefix A))
                  (entries (db (run L ops (NewBadgerRepository []))))))
       \<and> (\<forall>B url. prefix (generateUserPrefix A) (generateLinkKey B url) \<longleftrightarrow> A = B)"
proof -
  let ?r = "run L ops (NewBadgerRepository [])"
  let ?p = "generateUserPrefix A"
  from assms have s: "sort_ok L" by (simp add: stdlib_ok_def)
  note inv = run_fresh_invariants [of L ops]
  have dec: "\<forall>e \<in> set (entries (db ?r)). has_prefix ?p e
               \<longrightarrow> decodes (snd e) \<and> UserID (decoded (snd e)) = A"
    using written_entry_decodes inv by blast
  note get = fresh_run_get [OF assms, of ctx ops A]
  from s have ms: "mset (sort_Slice L f xs) = mset xs" for f xs
    by (simp add: sort_ok_def)
  have 2: "mset (fst (GetLinksByUser L ctx ?r A))
           = mset (map (\<lambda>e. decoded (snd e)) (filter (has_prefix ?p) (entries (db ?r))))"
    by (simp add: get ms)
  have "\<forall>l \<in> set (map (\<lambda>e. decoded (snd e)) (filter (has_prefix ?p) (entries (db ?r)))).
          UserID l = A"
    using dec by auto
  then have 1: "\<forall>l \<in> set (fst (GetLinksByUser L ctx ?r A)). UserID l = A"
    by (metis 2 set_mset_mset)
  from 1 2 user_prefix_iff show ?thesis by blast
qed

theorem GetLinksByUser_isolation_witness:
  "stdlib_ok example_stdlib
   \<and> GetLinksByUser example_stdlib None
       (run example_stdlib
          [Save None (at_utc 5) (zero_Link\<lparr>URL := ''a'', UserID := 1\<rparr>),
           Save None (at_utc 6) (zero_Link\<lparr>URL := ''b'', UserID := 12\<rparr>),
           Save None (at_utc 7) (zero_Link\<lparr>URL := ''c'', UserID := 1\<rparr>),
           Delete None 1 ''c'']
          (NewBadgerRepository [])) 1
       = ([zero_Link\<lparr>URL := ''a'', UserID := 1, Timestamp := at_utc 5\<rparr>], None)
   \<and> list_all (\<lambda>l. UserID l = 1) (fst (GetLinksByUser example_stdlib None
       (run example_stdlib
          [Save None (at_utc 5) (zero_Link\<lparr>URL := ''a'', UserID := 1\<rparr>),
           Save None (at_utc 6) (zero_Link\<lparr>URL := ''b'', UserID := 12\<rparr>),
           Save None (at_utc 7) (zero_Link\<lparr>URL := ''c'', UserID := 1\<rparr>),
           Delete None 1 ''c'']
          (NewBadgerRepository [])) 1))"
proof -
  let ?ops = "[Save None (at_utc 5) (zero_Link\<lparr>URL := ''a'', UserID := 1\<rparr>),
           Save None (at_utc 6) (zero_Link\<lparr>URL := ''b'', UserID := 12\<rparr>),
           Save None (at_utc 7) (zero_Link\<lparr>URL := ''c'', UserID := 1\<rparr>),
           Delete None 1 ''c'']"
  have ev: "GetLinksByUser example_stdlib None
       (run example_stdlib ?ops (NewBadgerRepository [])) 1
       = ([zero_Link\<lparr>URL := ''a'', UserID := 1, Timestamp := at_utc 5\<rparr>], None)"
    by code_simp
  from GetLinksByUser_isolation [OF example_stdlib_ok, of None ?ops 1]
  have "list_all (\<lambda>l. UserID l = 1) (fst (GetLinksByUser example_stdlib None
       (run example_stdlib ?ops (NewBadgerRepository [])) 1))"
    unfolding list_all_iff by blast
  with ev example_stdlib_ok show ?thesis by blast
qed

subsection \<open>What a sequence of writes leaves stored\<close>

lemma map_of_drop_entry: "map_of (drop_entry k es) = (map_of es)(k := None)"
  by (induction es) (auto simp: drop_entry_def fun_eq_iff)

lemma apply_op_effect:
  assumes "\<not> isClosed (db r)"
  shows "map_of (entries (db (apply_op L r x))) = effect_op L (map_of (entries (db r))) x"
proof (cases x)
  case (Save ctx now link)
  show ?thesis
  proof (cases "json_Marshal (stamped now link)")
    case (Inl err)
    from SaveLink_marshal_fails [OF this] Inl Save show ?thesis by simp
  next
    case (Inr val)
    show ?thesis
    proof (cases "txn_modify (generateLinkKey (UserID link) (URL link)) (stored_len L val)")
      case None
      from SaveLink_open [OF Inr assms None] Inr None Save show ?thesis
        by (simp add: map_of_put_entry)
    next
      case (Some err)
      from SaveLink_refused [OF Inr assms Some] Inr Some Save show ?thesis by simp
    qed
  qed
next
  case (Delete ctx u url)
  show ?thesis
  proof (cases "65000 < int (length (generateLinkKey u url))")
    case True
    from DeleteLink_refused [OF assms True] True Delete show ?thesis
      by (simp add: txn_modify_generated)
  next
    case False
    then have "int (length (generateLinkKey u url)) \<le> 65000" by simp
    from DeleteLink_open [OF assms this] False Delete show ?thesis
      by (simp add: txn_modify_generated map_of_drop_entry)
  qed
qed

lemma run_effect:
  "\<not> isClosed (db r)
    \<Longrightarrow> map_of (entries (db (run L ops r))) = foldl (effect_op L) (map_of (entries (db r))) ops"
proof (induction ops arbitrary: r)
  case Nil
  then show ?case by (simp add: run_def)
next
  case (Cons x ops)
  from Cons.prems have "\<not> isClosed (db (apply_op L r x))" by (simp add: apply_op_isClosed)
  from Cons.IH [OF this] apply_op_effect [OF Cons.prems] show ?case
    by (simp add: run_def)
qed

lemma run_fresh_effect:
  "map_of (entries (db (run L ops (NewBadgerRepository [])))) = foldl (effect_op L) Map.empty ops"
  using run_effect [of "NewBadgerRepository []" L ops] by (simp add: NewBadgerRepository_def)

lemma same_effect_same_store:
  assumes "foldl (effect_op L) Map.empty ops' = foldl (effect_op L) Map.empty ops"
  shows "run L ops' (NewBadgerRepository []) = run L ops (NewBadgerRepository [])"
proof -
  note i = run_fresh_invariants [of L ops] and i' = run_fresh_invariants [of L ops']
  from assms have "map_of (entries (db (run L ops' (NewBadgerRepository []))))
                 = map_of (entries (db (run L ops (NewBadgerRepository []))))"
    by (simp add: run_fresh_effect)
  with i i' have "entries (db (run L ops' (NewBadgerRepository [])))
                = entries (db (run L ops (NewBadgerRepository [])))"
    by (intro sorted_keys_unique) simp_all
  with i i' have "db (run L ops' (NewBadgerRepository [])) = db (run L ops (NewBadgerRepository []))"
    by simp
  then show ?thesis by simp
qed

lemma effect_from_save:
  "foldl (effect_op L) m ops k = Some v
    \<Longrightarrow> m k = Some v
        \<or> (\<exists>c now link. Save c now link \<in> set ops
              \<and> k = generateLinkKey (UserID link) (URL link)
              \<and> json_Marshal (stamped now link) = Inr v)"
proof (induction ops arbitrary: v rule: rev_induct)
  case Nil
  then show ?case by simp
next
  case (snoc x ops)
  show ?case
  proof (cases x)
    case (Save c now link)
    show ?thesis
    proof (cases "foldl (effect_op L) m (ops @ [x]) = foldl (effect_op L) m ops")
      case True
      with snoc.prems have "foldl (effect_op L) m ops k = Some v" by simp
      from snoc.IH [OF this] show ?thesis by auto
    next
      case False
      with Save obtain val where m: "json_Marshal (stamped now link) = Inr val"
        and e: "foldl (effect_op L) m (ops @ [x])
                 = (foldl (effect_op L) m ops)(generateLinkKey (UserID link) (URL link) \<mapsto> val)"
        by (auto split: sum.splits option.splits)
      show ?thesis
      proof (cases "k = generateLinkKey (UserID link) (URL link)")
        case True
        with e snoc.prems have "v = val" by simp
        with True m Save show ?thesis by auto
      next
        case False
        with e snoc.prems have "foldl (effect_op L) m ops k = Some v" by simp
        from snoc.IH [OF this] show ?thesis by auto
      qed
    qed
  next
    case (Delete c u url)
    with snoc.prems have "foldl (effect_op L) m ops k = Some v"
      by (auto split: option.splits if_splits)
    from snoc.IH [OF this] show ?thesis by auto
  qed
qed

lemma stored_from_save:
  assumes "e \<in> set (entries (db (run L ops (NewBadgerRepository []))))"
    and "has_prefix (generateUserPrefix A) e"
  shows "\<exists>c now link. Save c now link \<in> set ops \<and> UserID link = A
           \<and> decoded (snd e) = coerce_Link (stamped now link)"
proof -
  note inv = run_fresh_invariants [of L ops]
  from inv have "distinct (map fst (entries (db (run L ops (NewBadgerRepository [])))))"
    by (simp add: sorted_keys_distinct)
  with assms(1) have "map_of (entries (db (run L ops (NewBadgerRepository [])))) (fst e) = Some (snd e)"
    by simp
  then have "foldl (effect_op L) Map.empty ops (fst e) = Some (snd e)"
    by (simp add: run_fresh_effect)
  from effect_from_save [OF this] obtain c now link where s: "Save c now link \<in> set ops"
    and k: "fst e = generateLinkKey (UserID link) (URL link)"
    and m: "json_Marshal (stamped now link) = Inr (snd e)"
    by auto
  from unmarshal_marshal [OF m] have d: "decoded (snd e) = coerce_Link (stamped now link)"
    by (simp add: decoded_def)
  from assms(2) k have "A = UserID link"
    by (simp add: has_prefix_def user_prefix_iff)
  with s d show ?thesis by blast
qed

subsection \<open>Order of the results\<close>

lemma After_transitive_ordering:
  "transitive_ordering (\<lambda>a b. After (Timestamp a) (Timestamp b))"
  by (auto simp: transitive_ordering_def After_def)

lemma three_descending:
  fixes f :: "'a \<Rightarrow> int"
  assumes s: "sorted_wrt (\<lambda>x y. f y \<le> f x) xs" and m: "mset xs = {#a, b, c#}"
    and ab: "f a < f b" and bc: "f b < f c"
  shows "xs = [c, b, a]"
proof -
  from m have "length xs = 3" by (metis size_mset size_add_mset size_empty numeral_3_eq_3)
  then obtain x y z where xs: "xs = [x, y, z]"
    by (metis (no_types) length_0_conv length_Suc_conv numeral_3_eq_3)
  from s xs have o: "f y \<le> f x" "f z \<le> f x" "f z \<le> f y" by simp_all
  from m xs have "set_mset (mset [x, y, z]) = set_mset {#a, b, c#}" by simp
  then have st: "{x, y, z} = {a, b, c}" by simp
  from st have "c \<in> {x, y, z}" by blast
  with o have "f c \<le> f x" by auto
  moreover from st have "x \<in> {a, b, c}" by blast
  ultimately have x: "x = c" using ab bc by auto
  from st have "a \<in> {x, y, z}" by blast
  with o have "f z \<le> f a" by auto
  moreover from st have "z \<in> {a, b, c}" by blast
  ultimately have z: "z = a" using ab bc by auto
  from st have "b \<in> {x, y, z}" by blast
  with x z ab bc have y: "y = b" by auto
  from xs x y z show ?thesis by simp
qed

text \<open>
  Claim C2, which the code does not meet for every timestamp: three records saved for
  user 7 with timestamps \<open>T1 < T2 < T3\<close> come back with the record saved with \<open>T1\<close>
  first, because the timestamp \<open>T1\<close> lies in a zone 59 seconds east of UTC and its text
  drops these seconds: it is read back 59 seconds later, after \<open>T3\<close>.
\<close>

theorem ordering_counterexample:
  "After (\<lparr>instant = 11000000000, offset = 0\<rparr>) (\<lparr>instant = 10000000000, offset = 59\<rparr>)
   \<and> After (\<lparr>instant = 12000000000, offset = 0\<rparr>) (\<lparr>instant = 11000000000, offset = 0\<rparr>)
   \<and> GetLinksByUser example_stdlib None
       (run example_stdlib
          [Save None (at_utc 1) (zero_Link\<lparr>URL := ''t1'', UserID := 7,
              Timestamp := \<lparr>instant = 10000000000, offset = 59\<rparr>\<rparr>),
           Save None (at_utc 1) (zero_Link\<lparr>URL := ''t2'', UserID := 7,
              Timestamp := \<lparr>instant = 11000000000, offset = 0\<rparr>\<rparr>),
           Save None (at_utc 1) (zero_Link\<lparr>URL := ''t3'', UserID := 7,
              Timestamp := \<lparr>instant = 12000000000, offset = 0\<rparr>\<rparr>)]
          (NewBadgerRepository [])) 7
     = ([zero_Link\<lparr>URL := ''t1'', UserID := 7, Timestamp := \<lparr>instant = 69000000000, offset = 0\<rparr>\<rparr>,
         zero_Link\<lparr>URL := ''t3'', UserID := 7, Timestamp := \<lparr>instant = 12000000000, offset = 0\<rparr>\<rparr>,
         zero_Link\<lparr>URL := ''t2'', UserID := 7, Timestamp := \<lparr>instant = 11000000000, offset = 0\<rparr>\<rparr>],
        None)"
  by code_simp

text \<open>
  Claim C2 as the code has it. After any sequence of writes on a fresh store, what is
  stored is what the accepted saves put and the accepted deletes left, and
  \<open>GetLinksByUser\<close> returns the records stored for the user, as they decode (each is a
  record saved for the user, as its encoding gives it back), in descending order of the
  timestamps they decode with; when these are three records with timestamps
  \<open>T1 < T2 < T3\<close>, they come in the order \<open>T3\<close>, \<open>T2\<close>, \<open>T1\<close>. Records with equal
  timestamps come in an order that depends on what is stored only: any other sequence of
  writes that leaves the same values under the same keys gives the same list.
\<close>

theorem GetLinksByUser_ordering:
  assumes "stdlib_ok L"
  shows "\<exists>links. GetLinksByUser L ctx (run L ops (NewBadgerRepository [])) A = (links, None)
       \<and> map_of (entries (db (run L ops (NewBadgerRepository []))))
           = foldl (effect_op L) Map.empty ops
       \<and> mset links = mset (map (\<lambda>e. decoded (snd e))
               (filter (has_prefix (generateUserPrefix A))
                  (entries (db (run L ops (NewBadgerRepository []))))))
       \<and> (\<forall>l \<in> set links. \<exists>c now link. Save c now link \<in> set ops \<and> UserID link = A
              \<and> l = coerce_Link (stamped now link))
       \<and> sorted_wrt (\<lambda>a b. \<not> After (Timestamp b) (Timestamp a)) links
       \<and> (\<forall>l1 l2 l3. mset links = {#l1, l2, l3#}
              \<and> After (Timestamp l2) (Timestamp l1) \<and> After (Timestamp l3) (Timestamp l2)
            \<longrightarrow> links = [l3, l2, l1])
       \<and> (\<forall>ops' ctx'. foldl (effect_op L) Map.empty ops' = foldl (effect_op L) Map.empty ops
            \<longrightarrow> GetLinksByUser L ctx' (run L ops' (NewBadgerRepository [])) A = (links, None))"
proof -
  let ?r = "run L ops (NewBadgerRepository [])"
  let ?stored = "map (\<lambda>e. decoded (snd e))
                   (filter (has_prefix (generateUserPrefix A)) (entries (db ?r)))"
  let ?links = "sort_Slice L (\<lambda>a b. After (Timestamp a) (Timestamp b)) ?stored"
  from assms have s: "sort_ok L" by (simp add: stdlib_ok_def)
  have get: "GetLinksByUser L c ?r A = (?links, None)" for c
    by (rule fresh_run_get [OF assms])
  have 1: "mset ?links = mset ?stored"
    using s by (simp add: sort_ok_def)
  have 5: "\<forall>l \<in> set ?links. \<exists>c now link. Save c now link \<in> set ops \<and> UserID link = A
              \<and> l = coerce_Link (stamped now link)"
  proof
    fix l assume "l \<in> set ?links"
    then have "l \<in> set ?stored" using 1 by (metis set_mset_mset)
    then obtain e where "e \<in> set (entries (db ?r))" "has_prefix (generateUserPrefix A) e"
      "l = decoded (snd e)" by auto
    with stored_from_save [of e L ops A]
    show "\<exists>c now link. Save c now link \<in> set ops \<and> UserID link = A
              \<and> l = coerce_Link (stamped now link)" by simp
  qed
  from s After_transitive_ordering
  have 2: "sorted_wrt (\<lambda>a b. \<not> After (Timestamp b) (Timestamp a)) ?links"
    unfolding sort_ok_def by blast
  then have srt: "sorted_wrt (\<lambda>x y. instant (Timestamp y) \<le> instant (Timestamp x)) ?links"
    by (simp add: After_def not_less)
  have 3: "?links = [l3, l2, l1]"
    if "mset ?links = {#l1, l2, l3#}" "After (Timestamp l2) (Timestamp l1)"
       "After (Timestamp l3) (Timestamp l2)" for l1 l2 l3
    using three_descending [OF srt that(1)] that(2,3) by (simp add: After_def)
  have 4: "GetLinksByUser L ctx' (run L ops' (NewBadgerRepository [])) A = (?links, None)"
    if "foldl (effect_op L) Map.empty ops' = foldl (effect_op L) Map.empty ops" for ops' ctx'
    using same_effect_same_store [OF that] get [of ctx'] by simp
  from get [of ctx] run_fresh_effect [of L ops] 1 2 3 4 5 show ?thesis by blast
qed

theorem GetLinksByUser_ordering_witness:
  "stdlib_ok example_stdlib
   \<and> GetLinksByUser example_stdlib None
       (run example_stdlib
          [Save None (at_utc 1) (zero_Link\<lparr>URL := ''t2'', UserID := 7, Timestamp := at_utc 20\<rparr>),
           Save None (at_utc 1) (zero_Link\<lparr>URL := ''t1'', UserID := 7, Timestamp := at_utc 10\<rparr>),
           Save None (at_utc 1) (zero_Link\<lparr>URL := ''t3'', UserID := 7, Timestamp := at_utc 30\<rparr>)]
          (NewBadgerRepository [])) 7
       = ([zero_Link\<lparr>URL := ''t3'', UserID := 7, Timestamp := at_utc 30\<rparr>,
           zero_Link\<lparr>URL := ''t2'', UserID := 7, Timestamp := at_utc 20\<rparr>,
           zero_Link\<lparr>URL := ''t1'', UserID := 7, Timestamp := at_utc 10\<rparr>], None)
   \<and> sorted_wrt (\<lambda>a b. \<not> After (Timestamp b) (Timestamp a))
         [zero_Link\<lparr>URL := ''t3'', UserID := 7, Timestamp := at_utc 30\<rparr>,
          zero_Link\<lparr>URL := ''t2'', UserID := 7, Timestamp := at_utc 20\<rparr>,
          zero_Link\<lparr>URL := ''t1'', UserID := 7, Timestamp := at_utc 10\<rparr>]
   \<and> GetLinksByUser example_stdlib None
       (run example_stdlib
          [Save None (at_utc 1) (zero_Link\<lparr>URL := ''a'', UserID := 7, Timestamp := at_utc 10\<rparr>),
           Save None (at_utc 1) (zero_Link\<lparr>URL := ''b'', UserID := 7, Timestamp := at_utc 10\<rparr>)]
          (NewBadgerRepository [])) 7
       = ([zero_Link\<lparr>URL := ''a'', UserID := 7, Timestamp := at_utc 10\<rparr>,
           zero_Link\<lparr>URL := ''b'', UserID := 7, Timestamp := at_utc 10\<rparr>], None)
   \<and> GetLinksByUser example_stdlib (Some Canceled)
       (run example_stdlib
          [Save None (at_utc 1) (zero_Link\<lparr>URL := ''b'', UserID := 7, Timestamp := at_utc 10\<rparr>),
           Save None (at_utc 1) (zero_Link\<lparr>URL := ''x'', UserID := 7, Timestamp := at_utc 10\<rparr>),
           Save None (at_utc 1) (zero_Link\<lparr>URL := ''a'', UserID := 7, Timestamp := at_utc 10\<rparr>),
           Delete None 7 ''x'']
          (NewBadgerRepository [])) 7
       = ([zero_Link\<lparr>URL := ''a'', UserID := 7, Timestamp := at_utc 10\<rparr>,
           zero_Link\<lparr>URL := ''b'', UserID := 7, Timestamp := at_utc 10\<rparr>], None)"
proof -
  let ?ops1 = "[Save None (at_utc 1) (zero_Link\<lparr>URL := ''t2'', UserID := 7, Timestamp := at_utc 20\<rparr>),
           Save None (at_utc 1) (zero_Link\<lparr>URL := ''t1'', UserID := 7, Timestamp := at_utc 10\<rparr>),
           Save None (at_utc 1) (zero_Link\<lparr>URL := ''t3'', UserID := 7, Timestamp := at_utc 30\<rparr>)]"
  let ?links1 = "[zero_Link\<lparr>URL := ''t3'', UserID := 7, Timestamp := at_utc 30\<rparr>,
           zero_Link\<lparr>URL := ''t2'', UserID := 7, Timestamp := at_utc 20\<rparr>,
           zero_Link\<lparr>URL := ''t1'', UserID := 7, Timestamp := at_utc 10\<rparr>]"
  let ?ops2 = "[Save None (at_utc 1) (zero_Link\<lparr>URL := ''a'', UserID := 7, Timestamp := at_utc 10\<rparr>),
           Save None (at_utc 1) (zero_Link\<lparr>URL := ''b'', UserID := 7, Timestamp := at_utc 10\<rparr>)]"
  let ?ops2' = "[Save None (at_utc 1) (zero_Link\<lparr>URL := ''b'', UserID := 7, Timestamp := at_utc 10\<rparr>),
           Save None (at_utc 1) (zero_Link\<lparr>URL := ''x'', UserID := 7, Timestamp := at_utc 10\<rparr>),
           Save None (at_utc 1) (zero_Link\<lparr>URL := ''a'', UserID := 7, Timestamp := at_utc 10\<rparr>),
           Delete None 7 ''x'']"
  let ?links2 = "[zero_Link\<lparr>URL := ''a'', UserID := 7, Timestamp := at_utc 10\<rparr>,
           zero_Link\<lparr>URL := ''b'', UserID := 7, Timestamp := at_utc 10\<rparr>]"
  have ev1: "GetLinksByUser example_stdlib None (run example_stdlib ?ops1 (NewBadgerRepository [])) 7
             = (?links1, None)" by code_simp
  have ev2: "GetLinksByUser example_stdlib None (run example_stdlib ?ops2 (NewBadgerRepository [])) 7
             = (?links2, None)" by code_simp
  have "entries (db (run example_stdlib ?ops2' (NewBadgerRepository [])))
      = entries (db (run example_stdlib ?ops2 (NewBadgerRepository [])))" by code_simp
  then have same: "foldl (effect_op example_stdlib) Map.empty ?ops2'
                 = foldl (effect_op example_stdlib) Map.empty ?ops2"
    by (simp only: run_fresh_effect [symmetric])
  from GetLinksByUser_ordering [OF example_stdlib_ok, of None ?ops1 7] ev1
  have 1: "sorted_wrt (\<lambda>a b. \<not> After (Timestamp b) (Timestamp a)) ?links1" by auto
  from GetLinksByUser_ordering [OF example_stdlib_ok, of None ?ops2 7] ev2 same
  have 2: "GetLinksByUser example_stdlib (Some Canceled)
             (run example_stdlib ?ops2' (NewBadgerRepository [])) 7 = (?links2, None)"
    by (metis prod.inject)
  from example_stdlib_ok ev1 1 ev2 2 show ?thesis by blast
qed

subsection \<open>Saving and deleting\<close>




lemma fmt_d_one: "fmt_d (sint (1 :: int64)) = ''1''"
  by code_simp

lemma long_key: "65000 < int (length (generateLinkKey 1 (replicate 65000 CHR ''a'')))"
  by (simp only: length_generateLinkKey fmt_d_one length_replicate)

text \<open>
  Claim C6, which the code does not meet for every pair: on an open, empty store
  \<open>DeleteLink\<close> of a pair whose URL has 65000 bytes returns an error, because the engine
  refuses a key of more than 65000 bytes.
\<close>

theorem delete_long_key_counterexample:
  "DeleteLink None (NewBadgerRepository []) 1 (replicate 65000 CHR ''a'')
   = (Some (Wrapped (''failed to delete link '' @ replicate 65000 CHR ''a'' @ '' for user 1'')
        ErrKeyTooLarge), NewBadgerRepository [])"
proof -
  have "\<not> isClosed (db (NewBadgerRepository []))" by (simp add: NewBadgerRepository_def)
  from DeleteLink_refused [OF this long_key, of None] show ?thesis
    by (simp only: fmt_d_one append_Cons append_Nil)
qed

text \<open>
  Claim C6 as the code has it. On an open store, for a pair whose key has at most 65000
  bytes, \<open>DeleteLink\<close> returns no error whether or not the pair is stored, and removes
  the entry of the pair and no other; a second \<open>DeleteLink\<close> of the same pair returns no
  error either and leaves the store, hence the result of \<open>GetLinksByUser\<close> for every
  user, as the first call left it; deleting a pair that is not stored leaves the store as
  it was. For a pair whose key is longer, \<open>DeleteLink\<close> returns the engine's error and
  leaves the store as it was, every time.
\<close>

theorem DeleteLink_idempotent:
  assumes "\<not> isClosed (db r)"
  shows "(int (length (generateLinkKey u url)) \<le> 65000 \<longrightarrow>
           fst (DeleteLink ctx r u url) = None
         \<and> entries (db (snd (DeleteLink ctx r u url)))
             = filter (\<lambda>e. fst e \<noteq> generateLinkKey u url) (entries (db r))
         \<and> fst (DeleteLink ctx' (snd (DeleteLink ctx r u url)) u url) = None
         \<and> snd (DeleteLink ctx' (snd (DeleteLink ctx r u url)) u url) = snd (DeleteLink ctx r u url)
         \<and> (\<forall>A. GetLinksByUser L ctx'' (snd (DeleteLink ctx' (snd (DeleteLink ctx r u url)) u url)) A
                = GetLinksByUser L ctx'' (snd (DeleteLink ctx r u url)) A)
         \<and> (generateLinkKey u url \<notin> fst ` set (entries (db r))
              \<longrightarrow> snd (DeleteLink ctx r u url) = r))
       \<and> (65000 < int (length (generateLinkKey u url)) \<longrightarrow>
           DeleteLink ctx r u url
             = (Some (Wrapped (''failed to delete link '' @ url @ '' for user '' @ fmt_d (sint u))
                  ErrKeyTooLarge), r))"
proof -
  let ?r1 = "snd (DeleteLink ctx r u url)"
  have short: "fst (DeleteLink ctx r u url) = None
         \<and> entries (db ?r1) = filter (\<lambda>e. fst e \<noteq> generateLinkKey u url) (entries (db r))
         \<and> fst (DeleteLink ctx' ?r1 u url) = None
         \<and> snd (DeleteLink ctx' ?r1 u url) = ?r1
         \<and> (\<forall>A. GetLinksByUser L ctx'' (snd (DeleteLink ctx' ?r1 u url)) A
                = GetLinksByUser L ctx'' ?r1 A)
         \<and> (generateLinkKey u url \<notin> fst ` set (entries (db r)) \<longrightarrow> ?r1 = r)"
    if k: "int (length (generateLinkKey u url)) \<le> 65000"
  proof -
    from DeleteLink_open [OF assms k]
    have d1: "DeleteLink ctx r u url =
       (None, r\<lparr>db := (db r)\<lparr>entries := drop_entry (generateLinkKey u url) (entries (db r))\<rparr>\<rparr>)" .
    then have o1: "\<not> isClosed (db ?r1)" using assms by simp
    from DeleteLink_open [OF o1 k] d1
    have d2: "DeleteLink ctx' ?r1 u url = (None, ?r1)"
      by (simp add: drop_entry_twice)
    have absent: "?r1 = r" if "generateLinkKey u url \<notin> fst ` set (entries (db r))"
      using d1 drop_entry_absent [OF that] by simp
    from d1 d2 absent show ?thesis by (simp add: drop_entry_def)
  qed
  from short DeleteLink_refused [OF assms] show ?thesis by blast
qed

theorem DeleteLink_idempotent_witness:
  "\<not> isClosed (db (NewBadgerRepository [(''user:1:link:a'', JSONText JNull)]))
   \<and> int (length (generateLinkKey 1 ''a'')) \<le> 65000
   \<and> DeleteLink None (NewBadgerRepository [(''user:1:link:a'', JSONText JNull)]) 1 ''a''
       = (None, NewBadgerRepository [])
   \<and> DeleteLink None (NewBadgerRepository []) 1 ''a'' = (None, NewBadgerRepository [])
   \<and> generateLinkKey 1 ''b'' \<notin> fst ` set (entries (db (NewBadgerRepository [(''user:1:link:a'', JSONText JNull)])))
   \<and> snd (DeleteLink None (NewBadgerRepository [(''user:1:link:a'', JSONText JNull)]) 1 ''b'')
       = NewBadgerRepository [(''user:1:link:a'', JSONText JNull)]
   \<and> 65000 < int (length (generateLinkKey 1 (replicate 65000 CHR ''a'')))
   \<and> snd (DeleteLink None (NewBadgerRepository [(''user:1:link:a'', JSONText JNull)]) 1
             (replicate 65000 CHR ''a''))
       = NewBadgerRepository [(''user:1:link:a'', JSONText JNull)]"
proof -
  let ?r = "NewBadgerRepository [(''user:1:link:a'', JSONText JNull)]"
  have o: "\<not> isClosed (db ?r)" by code_simp
  have ka: "int (length (generateLinkKey 1 ''a'')) \<le> 65000" by code_simp
  have kb: "int (length (generateLinkKey 1 ''b'')) \<le> 65000" by code_simp
  have e1: "DeleteLink None ?r 1 ''a'' = (None, NewBadgerRepository [])" by code_simp
  have ab: "generateLinkKey 1 ''b'' \<notin> fst ` set (entries (db ?r))" by code_simp
  from DeleteLink_idempotent [OF o, of 1 "''a''" None None] ka
  have "fst (DeleteLink None (snd (DeleteLink None ?r 1 ''a'')) 1 ''a'') = None
      \<and> snd (DeleteLink None (snd (DeleteLink None ?r 1 ''a'')) 1 ''a'') = snd (DeleteLink None ?r 1 ''a'')"
    by blast
  with e1 have e2: "DeleteLink None (NewBadgerRepository []) 1 ''a'' = (None, NewBadgerRepository [])"
    by (simp add: prod_eq_iff)
  from DeleteLink_idempotent [OF o, of 1 "''b''" None] kb ab
  have e3: "snd (DeleteLink None ?r 1 ''b'') = ?r" by blast
  from DeleteLink_idempotent [OF o, of 1 "replicate 65000 CHR ''a''" None] long_key
  have e4: "snd (DeleteLink None ?r 1 (replicate 65000 CHR ''a'')) = ?r" by simp
  from o ka e1 e2 ab e3 long_key e4 show ?thesis by blast
qed

text \<open>
  Claim C7, which the code does not meet for every timestamp: a record saved with a
  non-zero timestamp in a zone 59 seconds east of UTC is stored with a text that drops
  these seconds, and is read back with an instant 59 seconds later than the caller's.
\<close>

theorem timestamp_counterexample:
  "fst (SaveLink example_stdlib (at_utc 1) None (NewBadgerRepository [])
          (zero_Link\<lparr>URL := ''a'', UserID := 1,
             Timestamp := \<lparr>instant = 10000000000, offset = 59\<rparr>\<rparr>)) = None
   \<and> GetLinksByUser example_stdlib None
        (snd (SaveLink example_stdlib (at_utc 1) None (NewBadgerRepository [])
                (zero_Link\<lparr>URL := ''a'', UserID := 1,
                   Timestamp := \<lparr>instant = 10000000000, offset = 59\<rparr>\<rparr>))) 1
      = ([zero_Link\<lparr>URL := ''a'', UserID := 1,
            Timestamp := \<lparr>instant = 69000000000, offset = 0\<rparr>\<rparr>], None)"
  by code_simp

text \<open>
  Claim C7 as the code has it. \<open>SaveLink\<close> encodes the caller's record with the current
  time in the place of a zero timestamp (a non-zero time whenever the clock's reading
  is), and with the caller's timestamp otherwise. On an open store, when the codec accepts
  that record and the engine its key and value, the save returns no error and the
  encoding is stored under the key of the record. It decodes with the timestamp as the
  text gives it back: the instant moved by the seconds that the zone offset has beyond
  whole minutes, hence the same time when the offset is a whole number of minutes.
\<close>

theorem SaveLink_timestamp:
  assumes "\<not> isClosed (db r)"
    and "json_Marshal (stamped now l) = Inr val"
    and "int (length (generateLinkKey (UserID l) (URL l))) \<le> 65000"
    and "stored_len L val \<le> 1073741823"
  shows "fst (SaveLink L now ctx r l) = None
       \<and> map_of (entries (db (snd (SaveLink L now ctx r l))))
            (generateLinkKey (UserID l) (URL l)) = Some val
       \<and> Timestamp (stamped now l) = (if IsZero (Timestamp l) then now else Timestamp l)
       \<and> (IsZero (Timestamp l) \<and> \<not> IsZero now \<longrightarrow> \<not> IsZero (Timestamp (stamped now l)))
       \<and> (\<exists>p. json_Unmarshal val = Inr p
            \<and> Timestamp p = reread (Timestamp (stamped now l))
            \<and> instant (Timestamp p)
                = instant (Timestamp (stamped now l))
                  + (offset (Timestamp (stamped now l))
                     - zone_minutes (Timestamp (stamped now l)) * 60) * 1000000000
            \<and> (offset (Timestamp (stamped now l)) mod 60 = 0
                 \<longrightarrow> Timestamp p = Timestamp (stamped now l)))"
proof -
  from assms(3,4)
  have ok: "txn_modify (generateLinkKey (UserID l) (URL l)) (stored_len L val) = None"
    by (simp add: txn_modify_generated)
  note sv = SaveLink_open [OF assms(2) assms(1) ok, of ctx]
  have u: "json_Unmarshal val = Inr (coerce_Link (stamped now l))"
    by (rule unmarshal_marshal [OF assms(2)])
  have ts: "Timestamp (coerce_Link (stamped now l)) = reread (Timestamp (stamped now l))"
    by (simp add: coerce_Link_def)
  have look: "map_of (entries (db (snd (SaveLink L now ctx r l))))
                (generateLinkKey (UserID l) (URL l)) = Some val"
    by (simp add: sv map_of_put_entry)
  have z: "IsZero (Timestamp l) \<and> \<not> IsZero now \<longrightarrow> \<not> IsZero (Timestamp (stamped now l))"
    by (simp add: stamped_def)
  from sv look u ts z Timestamp_stamped [of now l] instant_reread [of "Timestamp (stamped now l)"]
    reread_whole_minutes [of "Timestamp (stamped now l)"]
  show ?thesis by simp
qed

theorem SaveLink_timestamp_witness:
  "\<not> isClosed (db (NewBadgerRepository []))
   \<and> json_Marshal (stamped \<lparr>instant = 5000000000, offset = 3600\<rparr> (zero_Link\<lparr>URL := ''a'', UserID := 1\<rparr>))
       = Inr (JSONText (JObject
          [(''url'', JString ''a''), (''title'', JString []), (''description'', JString []),
           (''user_id'', JNumber 1), (''timestamp'', JTime 3605000000000 60),
           (''read'', JBool False)]))
   \<and> fst (SaveLink example_stdlib \<lparr>instant = 5000000000, offset = 3600\<rparr> None (NewBadgerRepository [])
            (zero_Link\<lparr>URL := ''a'', UserID := 1\<rparr>)) = None
   \<and> GetLinksByUser example_stdlib None
        (snd (SaveLink example_stdlib \<lparr>instant = 5000000000, offset = 3600\<rparr> None
                (NewBadgerRepository []) (zero_Link\<lparr>URL := ''a'', UserID := 1\<rparr>))) 1
      = ([zero_Link\<lparr>URL := ''a'', UserID := 1,
            Timestamp := \<lparr>instant = 5000000000, offset = 3600\<rparr>\<rparr>], None)
   \<and> fst (SaveLink example_stdlib \<lparr>instant = 5000000000, offset = 3600\<rparr> None (NewBadgerRepository [])
            (zero_Link\<lparr>URL := ''a'', UserID := 1, Timestamp := at_utc 3\<rparr>)) = None
   \<and> GetLinksByUser example_stdlib None
        (snd (SaveLink example_stdlib \<lparr>instant = 5000000000, offset = 3600\<rparr> None
                (NewBadgerRepository []) (zero_Link\<lparr>URL := ''a'', UserID := 1, Timestamp := at_utc 3\<rparr>))) 1
      = ([zero_Link\<lparr>URL := ''a'', UserID := 1, Timestamp := at_utc 3\<rparr>], None)"
proof -
  let ?now = "\<lparr>instant = 5000000000, offset = 3600\<rparr>"
  let ?z = "zero_Link\<lparr>URL := ''a'', UserID := 1\<rparr>"
  let ?n = "zero_Link\<lparr>URL := ''a'', UserID := 1, Timestamp := at_utc 3\<rparr>"
  let ?vz = "JSONText (JObject
          [(''url'', JString ''a''), (''title'', JString []), (''description'', JString []),
           (''user_id'', JNumber 1), (''timestamp'', JTime 3605000000000 60),
           (''read'', JBool False)])"
  let ?vn = "JSONText (JObject
          [(''url'', JString ''a''), (''title'', JString []), (''description'', JString []),
           (''user_id'', JNumber 1), (''timestamp'', JTime 3 0),
           (''read'', JBool False)])"
  have o: "\<not> isClosed (db (NewBadgerRepository []))" by code_simp
  have mz: "json_Marshal (stamped ?now ?z) = Inr ?vz" by code_simp
  have mn: "json_Marshal (stamped ?now ?n) = Inr ?vn" by code_simp
  have k: "int (length (generateLinkKey (UserID ?z) (URL ?z))) \<le> 65000"
    "int (length (generateLinkKey (UserID ?n) (URL ?n))) \<le> 65000" by code_simp+
  have sz: "stored_len example_stdlib ?vz \<le> 1073741823"
    "stored_len example_stdlib ?vn \<le> 1073741823" by code_simp+
  from SaveLink_timestamp [OF o mz k(1) sz(1), of None]
  have 1: "fst (SaveLink example_stdlib ?now None (NewBadgerRepository []) ?z) = None" by blast
  from SaveLink_timestamp [OF o mn k(2) sz(2), of None]
  have 2: "fst (SaveLink example_stdlib ?now None (NewBadgerRepository []) ?n) = None" by blast
  have g1: "GetLinksByUser example_stdlib None
        (snd (SaveLink example_stdlib ?now None (NewBadgerRepository []) ?z)) 1
      = ([zero_Link\<lparr>URL := ''a'', UserID := 1, Timestamp := ?now\<rparr>], None)"
    by code_simp
  have g2: "GetLinksByUser example_stdlib None
        (snd (SaveLink example_stdlib ?now None (NewBadgerRepository []) ?n)) 1
      = ([?n], None)"
    by code_simp
  from o mz 1 2 g1 g2 show ?thesis by blast
qed

subsection \<open>The context\<close>

text \<open>
  Claim C5, which the code does not meet: with a context that is already cancelled,
  \<open>SaveLink\<close> on an open store writes the record and returns no error.
\<close>

theorem cancelled_context_counterexample:
  "SaveLink example_stdlib (at_utc 5) (Some Canceled) (NewBadgerRepository [])
     (zero_Link\<lparr>URL := ''a'', UserID := 1\<rparr>)
   = (None, NewBadgerRepository [(''user:1:link:a'', JSONText (JObject
        [(''url'', JString ''a''), (''title'', JString []), (''description'', JString []),
         (''user_id'', JNumber 1), (''timestamp'', JTime 5 0), (''read'', JBool False)]))])"
  by code_simp

text \<open>
  Claim C5 as the code has it: the three operations take a context and never consult it;
  with a cancelled or expired context each of them does and returns what it does and
  returns with a live one.
\<close>

theorem context_not_consulted:
  "SaveLink L now ctx r l = SaveLink L now None r l
   \<and> GetLinksByUser L ctx r A = GetLinksByUser L None r A
   \<and> DeleteLink ctx r u url = DeleteLink None r u url"
  by (simp add: SaveLink_def GetLinksByUser_def DeleteLink_def)

subsection \<open>The closed store\<close>

lemma run_isClosed: "isClosed (db (run L ops r)) = isClosed (db r)"
proof (induction ops arbitrary: r)
  case Nil
  then show ?case by (simp add: run_def)
next
  case (Cons x ops)
  from Cons [of "apply_op L r x"] show ?case
    by (simp add: run_def apply_op_isClosed)
qed

text \<open>
  Claim C8, which the code does not meet: on a closed store, \<open>SaveLink\<close> of a record whose
  timestamp \<^verbatim>\<open>json.Marshal\<close> rejects (here a year beyond 9999) returns the encoding
  error, which is not the closed-store error.
\<close>

theorem closed_store_counterexample:
  "fst (SaveLink example_stdlib (at_utc 5) None (snd (Close (NewBadgerRepository [])))
          (zero_Link\<lparr>URL := ''a'', UserID := 1, Timestamp := at_utc 400000000000000000000\<rparr>))
     = Some (Wrapped ''failed to marshal link'' MarshalerError)
   \<and> \<not> is_ErrDBClosed (Wrapped ''failed to marshal link'' MarshalerError)"
  by code_simp

text \<open>
  Claim C8 as the code has it. The engine is open or closed; \<open>Close\<close> returns no error and
  leaves it closed, and no later \<open>SaveLink\<close>, \<open>DeleteLink\<close> or \<open>Close\<close> opens it again.
  After \<open>Close\<close> every operation returns an error and leaves the store as it is:
  \<open>GetLinksByUser\<close> and \<open>DeleteLink\<close> the closed-store error, \<open>SaveLink\<close> the closed-store
  error when the record can be encoded.
\<close>

theorem closed_store_fails:
  "fst (Close r) = None
   \<and> isClosed (db (snd (Close r)))
   \<and> isClosed (db (run L ops (snd (Close r))))
   \<and> isClosed (db (snd (Close (snd (Close r)))))
   \<and> (\<exists>err. GetLinksByUser L ctx (snd (Close r)) A = ([], Some err) \<and> is_ErrDBClosed err)
   \<and> (\<exists>err. DeleteLink ctx (snd (Close r)) u url = (Some err, snd (Close r)) \<and> is_ErrDBClosed err)
   \<and> (\<exists>err. SaveLink L now ctx (snd (Close r)) l = (Some err, snd (Close r))
         \<and> (MarshalJSON_accepts (if IsZero (Timestamp l) then now else Timestamp l)
              \<longrightarrow> is_ErrDBClosed err))"
proof -
  let ?c = "snd (Close r)"
  have c: "isClosed (db ?c)" by (simp add: Close_def)
  have 1: "fst (Close r) = None" by (simp add: Close_def)
  have 2: "isClosed (db (run L ops ?c))" by (simp add: run_isClosed c)
  have 3: "isClosed (db (snd (Close ?c)))" by (simp add: Close_def)
  have 4: "\<exists>err. GetLinksByUser L ctx ?c A = ([], Some err) \<and> is_ErrDBClosed err"
    by (simp add: GetLinksByUser_closed [OF c])
  have 5: "\<exists>err. DeleteLink ctx ?c u url = (Some err, ?c) \<and> is_ErrDBClosed err"
    by (simp add: DeleteLink_closed [OF c])
  have 6: "\<exists>err. SaveLink L now ctx ?c l = (Some err, ?c)
         \<and> (MarshalJSON_accepts (if IsZero (Timestamp l) then now else Timestamp l)
              \<longrightarrow> is_ErrDBClosed err)"
  proof (cases "json_Marshal (stamped now l)")
    case (Inl e)
    then have "\<not> MarshalJSON_accepts (Timestamp (stamped now l))"
      by (simp add: json_Marshal_Inl)
    then have "\<not> MarshalJSON_accepts (if IsZero (Timestamp l) then now else Timestamp l)"
      by (simp add: Timestamp_stamped)
    with SaveLink_marshal_fails [OF Inl] show ?thesis by simp
  next
    case (Inr val)
    from SaveLink_closed [OF Inr c] show ?thesis by simp
  qed
  from 1 c 2 3 4 5 6 show ?thesis by blast
qed

theorem closed_store_fails_witness:
  "MarshalJSON_accepts (if IsZero (Timestamp (zero_Link\<lparr>URL := ''a'', UserID := 1\<rparr>)) then at_utc 5
                  else Timestamp (zero_Link\<lparr>URL := ''a'', UserID := 1\<rparr>))
   \<and> SaveLink example_stdlib (at_utc 5) None (snd (Close (NewBadgerRepository [])))
        (zero_Link\<lparr>URL := ''a'', UserID := 1\<rparr>)
      = (Some (Wrapped ''failed to save link'' ErrDBClosed), snd (Close (NewBadgerRepository [])))
   \<and> is_ErrDBClosed (Wrapped ''failed to save link'' ErrDBClosed)
   \<and> isClosed (db (run example_stdlib [Save None (at_utc 5) (zero_Link\<lparr>URL := ''a'', UserID := 1\<rparr>)]
                      (snd (Close (NewBadgerRepository [])))))"
proof -
  let ?l = "zero_Link\<lparr>URL := ''a'', UserID := 1\<rparr>"
  let ?c = "snd (Close (NewBadgerRepository []))"
  have y: "MarshalJSON_accepts (if IsZero (Timestamp ?l) then at_utc 5 else Timestamp ?l)"
    by code_simp
  have ev: "SaveLink example_stdlib (at_utc 5) None ?c ?l
      = (Some (Wrapped ''failed to save link'' ErrDBClosed), ?c)" by code_simp
  note cl = closed_store_fails [of "NewBadgerRepository []" example_stdlib
      "[Save None (at_utc 5) ?l]" None 1 1 "''a''" "at_utc 5" ?l]
  from cl y obtain err where "SaveLink example_stdlib (at_utc 5) None ?c ?l = (Some err, ?c)"
    and "is_ErrDBClosed err" by blast
  with ev have i: "is_ErrDBClosed (Wrapped ''failed to save link'' ErrDBClosed)" by simp
  from cl have "isClosed (db (run example_stdlib [Save None (at_utc 5) ?l] ?c))" by blast
  with y ev i show ?thesis by blast
qed

subsection \<open>The codec, round trip\<close>

lemma coerce_Link_valid:
  assumes "valid_strings l" and "Tags l \<noteq> Some []" and "offset (Timestamp l) mod 60 = 0"
  shows "coerce_Link l = l"
proof -
  have tags: "(case Tags l of None \<Rightarrow> None | Some [] \<Rightarrow> None
                | Some ts \<Rightarrow> Some (map coerce_utf8 ts)) = Tags l"
  proof (cases "Tags l")
    case None
    then show ?thesis by simp
  next
    case (Some ts)
    with assms(1) have "list_all ValidString ts" by (simp add: valid_strings_def)
    then have "map coerce_utf8 ts = ts"
      by (induction ts) (simp_all add: coerce_utf8_valid)
    with Some assms(2) show ?thesis by (cases ts) simp_all
  qed
  from assms(1) have "coerce_utf8 (URL l) = URL l" "coerce_utf8 (Title l) = Title l"
    "coerce_utf8 (Description l) = Description l"
    "coerce_utf8 (PreviewImageURL l) = PreviewImageURL l"
    by (simp_all add: valid_strings_def coerce_utf8_valid)
  with tags reread_whole_minutes [OF assms(3)] show ?thesis
    by (simp add: coerce_Link_def)
qed

text \<open>
  Claim C9, which the code does not meet for every record. A title that is not valid UTF-8
  (the single byte FF) is encoded as U+FFFD and decodes to the three bytes EF BF BD. A
  timestamp in a zone 59 seconds east of UTC decodes to an instant 59 seconds later, in
  UTC. An empty, non-nil list of tags is omitted and decodes to nil. A record is not
  encoded at all when the year of its timestamp, read in the zone of the timestamp, lies
  beyond 9999 (here the last second of 9999 in UTC, one hour east of UTC), or when the
  zone of its timestamp is 24 hours or more from UTC.
\<close>

theorem roundtrip_counterexample:
  "roundtrip (zero_Link\<lparr>Title := [CHR 0xFF]\<rparr>)
     = Inr (zero_Link\<lparr>Title := [CHR 0xEF, CHR 0xBF, CHR 0xBD]\<rparr>)
   \<and> roundtrip (zero_Link\<lparr>Title := [CHR 0xFF]\<rparr>)
     \<noteq> Inr (zero_Link\<lparr>Title := [CHR 0xFF]\<rparr>)
   \<and> roundtrip (zero_Link\<lparr>Timestamp := \<lparr>instant = 10000000000, offset = 59\<rparr>\<rparr>)
     = Inr (zero_Link\<lparr>Timestamp := \<lparr>instant = 69000000000, offset = 0\<rparr>\<rparr>)
   \<and> roundtrip (zero_Link\<lparr>Tags := Some []\<rparr>) = Inr (zero_Link\<lparr>Tags := None\<rparr>)
   \<and> roundtrip (zero_Link\<lparr>Timestamp := at_utc 400000000000000000000\<rparr>)
     = Inl MarshalerError
   \<and> roundtrip (zero_Link\<lparr>Timestamp := at_utc 315537897599000000000\<rparr>)
     = Inr (zero_Link\<lparr>Timestamp := at_utc 315537897599000000000\<rparr>)
   \<and> roundtrip (zero_Link\<lparr>Timestamp := \<lparr>instant = 315537897599000000000, offset = 3600\<rparr>\<rparr>)
     = Inl MarshalerError
   \<and> roundtrip (zero_Link\<lparr>Timestamp := \<lparr>instant = 10000000000, offset = 86400\<rparr>\<rparr>)
     = Inl MarshalerError"
  by code_simp

text \<open>
  Claim C9 as the code has it. A record is encoded exactly when the year of its timestamp,
  read in the zone of the timestamp, is in 0..9999 and that zone is less than 24 hours
  from UTC; it then decodes to the record with every string coerced to valid UTF-8, the
  timestamp as its text gives it back, and an empty list of tags as nil. So a record
  whose strings (URL, title, description, every tag, preview image URL) are valid UTF-8,
  whose list of tags is nil or not empty, and whose timestamp is accepted and has a zone
  offset of whole minutes, is encoded without error and decodes to itself, field by
  field.
\<close>

theorem codec_roundtrip:
  "(MarshalJSON_accepts (Timestamp l) \<longrightarrow> roundtrip l = Inr (coerce_Link l))
   \<and> (\<not> MarshalJSON_accepts (Timestamp l) \<longrightarrow> roundtrip l = Inl MarshalerError)
   \<and> (valid_strings l \<and> Tags l \<noteq> Some [] \<and> MarshalJSON_accepts (Timestamp l)
        \<and> offset (Timestamp l) mod 60 = 0 \<longrightarrow> roundtrip l = Inr l)"
proof -
  have a: "roundtrip l = Inr (coerce_Link l)" if "MarshalJSON_accepts (Timestamp l)"
  proof -
    from that obtain val where m: "json_Marshal l = Inr val"
      using json_Marshal_Inr [of l] by blast
    from unmarshal_marshal [OF m] m show ?thesis by (simp add: roundtrip_def)
  qed
  have b: "roundtrip l = Inl MarshalerError" if "\<not> MarshalJSON_accepts (Timestamp l)"
  proof -
    from that have "json_Marshal l = Inl MarshalerError" by (simp add: json_Marshal_Inl)
    then show ?thesis by (simp add: roundtrip_def)
  qed
  from a b coerce_Link_valid [of l] show ?thesis by auto
qed

theorem codec_roundtrip_witness:
  "valid_strings \<lparr>URL = ''https://a.com'', Title = ''A'', Description = ''d'', UserID = - 12,
        Timestamp = \<lparr>instant = 1700000000000000000, offset = 19800\<rparr>,
        Tags = Some [''x'', [CHR 0xC3, CHR 0xA9]], Read = True,
        PreviewImageURL = ''https://a.com/i.png''\<rparr>
   \<and> MarshalJSON_accepts \<lparr>instant = 1700000000000000000, offset = 19800\<rparr>
   \<and> roundtrip \<lparr>URL = ''https://a.com'', Title = ''A'', Description = ''d'', UserID = - 12,
        Timestamp = \<lparr>instant = 1700000000000000000, offset = 19800\<rparr>,
        Tags = Some [''x'', [CHR 0xC3, CHR 0xA9]], Read = True,
        PreviewImageURL = ''https://a.com/i.png''\<rparr>
     = Inr \<lparr>URL = ''https://a.com'', Title = ''A'', Description = ''d'', UserID = - 12,
        Timestamp = \<lparr>instant = 1700000000000000000, offset = 19800\<rparr>,
        Tags = Some [''x'', [CHR 0xC3, CHR 0xA9]], Read = True,
        PreviewImageURL = ''https://a.com/i.png''\<rparr>
   \<and> \<not> MarshalJSON_accepts (at_utc 400000000000000000000)
   \<and> roundtrip (zero_Link\<lparr>Timestamp := at_utc 400000000000000000000\<rparr>) = Inl MarshalerError"
proof -
  let ?l = "\<lparr>URL = ''https://a.com'', Title = ''A'', Description = ''d'', UserID = - 12,
        Timestamp = \<lparr>instant = 1700000000000000000, offset = 19800\<rparr>,
        Tags = Some [''x'', [CHR 0xC3, CHR 0xA9]], Read = True,
        PreviewImageURL = ''https://a.com/i.png''\<rparr>"
  let ?far = "zero_Link\<lparr>Timestamp := at_utc 400000000000000000000\<rparr>"
  have v: "valid_strings ?l" by code_simp
  have t: "Tags ?l \<noteq> Some []" by simp
  have y: "MarshalJSON_accepts (Timestamp ?l)" by code_simp
  have y': "MarshalJSON_accepts \<lparr>instant = 1700000000000000000, offset = 19800\<rparr>" by code_simp
  have m: "offset (Timestamp ?l) mod 60 = 0" by simp
  have n: "\<not> MarshalJSON_accepts (Timestamp ?far)" by code_simp
  have n': "\<not> MarshalJSON_accepts (at_utc 400000000000000000000)" by code_simp
  from codec_roundtrip [of ?l] v t y m have 1: "roundtrip ?l = Inr ?l" by blast
  from codec_roundtrip [of ?far] n have 2: "roundtrip ?far = Inl MarshalerError" by blast
  from v y' 1 n' 2 show ?thesis by blast
qed

end
